theory Spec2Isabelle
  imports Main "HOL-Library.List_Lexorder" "HOL-Library.Char_ord"
begin

section \<open>Go strings and the library functions the code calls on them\<close>

text \<open>
  A Go string is a sequence of bytes, here a \<open>string\<close> (a list of 8-bit \<open>char\<close>s);
  \<open>length\<close> is Go's \<open>len\<close>. The functions of this section belong to Go's standard
  library (packages strings, unicode), not to the repository; they are written out on
  bytes so that the repository's functions below can be evaluated.
\<close>

definition asciiSpace :: "char \<Rightarrow> bool" where
  "asciiSpace c = (c = CHR 0x09 \<or> c = CHR 0x0A \<or> c = CHR 0x0B \<or> c = CHR 0x0C \<or> c = CHR 0x0D \<or> c = CHR '' '')"

text \<open>
  The UTF-8 encodings of the non-ASCII runes for which \<open>unicode.IsSpace\<close> holds:
  U+0085, U+00A0 (two bytes) and U+1680, U+2000..U+200A, U+2028, U+2029, U+202F, U+205F,
  U+3000 (three bytes).
\<close>

definition unicodeSpaces2 :: "string list" where
  "unicodeSpaces2 = [[CHR 0xC2, CHR 0x85], [CHR 0xC2, CHR 0xA0]]"

definition unicodeSpaces3 :: "string list" where
  "unicodeSpaces3 =
     [[CHR 0xE1, CHR 0x9A, CHR 0x80],
      [CHR 0xE2, CHR 0x80, CHR 0x80], [CHR 0xE2, CHR 0x80, CHR 0x81],
      [CHR 0xE2, CHR 0x80, CHR 0x82], [CHR 0xE2, CHR 0x80, CHR 0x83],
      [CHR 0xE2, CHR 0x80, CHR 0x84], [CHR 0xE2, CHR 0x80, CHR 0x85],
      [CHR 0xE2, CHR 0x80, CHR 0x86], [CHR 0xE2, CHR 0x80, CHR 0x87],
      [CHR 0xE2, CHR 0x80, CHR 0x88], [CHR 0xE2, CHR 0x80, CHR 0x89],
      [CHR 0xE2, CHR 0x80, CHR 0x8A], [CHR 0xE2, CHR 0x80, CHR 0xA8],
      [CHR 0xE2, CHR 0x80, CHR 0xA9], [CHR 0xE2, CHR 0x80, CHR 0xAF],
      [CHR 0xE2, CHR 0x81, CHR 0x9F], [CHR 0xE3, CHR 0x80, CHR 0x80]]"

text \<open>The number of bytes of the white-space rune a string starts with; 0 when it starts with none.\<close>

definition leadingSpace :: "string \<Rightarrow> nat" where
  "leadingSpace s =
     (case s of
        [] \<Rightarrow> 0
      | c # _ \<Rightarrow>
          if asciiSpace c then 1
          else if take 2 s \<in> set unicodeSpaces2 then 2
          else if take 3 s \<in> set unicodeSpaces3 then 3
          else 0)"

lemma unicodeSpaces2_length: "x \<in> set unicodeSpaces2 \<Longrightarrow> length x = 2"
  unfolding unicodeSpaces2_def by auto

lemma unicodeSpaces3_length: "x \<in> set unicodeSpaces3 \<Longrightarrow> length x = 3"
  unfolding unicodeSpaces3_def by auto

lemma take_length_le: "length (take n s) = n \<Longrightarrow> n \<le> length s"
  by simp

lemma leadingSpace_le: "leadingSpace s \<le> length s"
proof (cases s)
  case Nil
  then show ?thesis by (simp add: leadingSpace_def)
next
  case (Cons c cs)
  have two: "take 2 s \<in> set unicodeSpaces2 \<Longrightarrow> 2 \<le> length s"
    using unicodeSpaces2_length [of "take 2 s"] take_length_le [of 2 s] by blast
  have three: "take 3 s \<in> set unicodeSpaces3 \<Longrightarrow> 3 \<le> length s"
    using unicodeSpaces3_length [of "take 3 s"] take_length_le [of 3 s] by blast
  have "leadingSpace s = 0 \<or> leadingSpace s = 1
      \<or> (leadingSpace s = 2 \<and> take 2 s \<in> set unicodeSpaces2)
      \<or> (leadingSpace s = 3 \<and> take 3 s \<in> set unicodeSpaces3)"
    unfolding leadingSpace_def Cons by simp
  moreover have "1 \<le> length s" using Cons by simp
  ultimately show ?thesis using two three by auto
qed

function trimLeft :: "string \<Rightarrow> string" where
  "trimLeft s = (if leadingSpace s = 0 then s else trimLeft (drop (leadingSpace s) s))"
  by pat_completeness auto
termination
proof (relation "measure length")
  show "wf (measure length)" by simp
next
  fix s :: string
  assume "leadingSpace s \<noteq> 0"
  moreover have "leadingSpace s \<le> length s" by (rule leadingSpace_le)
  ultimately show "(drop (leadingSpace s) s, s) \<in> measure length" by simp
qed

declare trimLeft.simps [simp del]

text \<open>
  Trimming on the right looks at the reversed string: a white-space rune ends the string
  exactly when the reversed string starts with its bytes reversed.
\<close>

definition trailingSpace :: "string \<Rightarrow> nat" where
  "trailingSpace s =
     (case rev s of
        [] \<Rightarrow> 0
      | c # _ \<Rightarrow>
          if asciiSpace c then 1
          else if rev (take 2 (rev s)) \<in> set unicodeSpaces2 then 2
          else if rev (take 3 (rev s)) \<in> set unicodeSpaces3 then 3
          else 0)"

lemma trailingSpace_le: "trailingSpace s \<le> length s"
proof (cases "rev s")
  case Nil
  then show ?thesis by (simp add: trailingSpace_def)
next
  case (Cons c cs)
  have two: "rev (take 2 (rev s)) \<in> set unicodeSpaces2 \<Longrightarrow> 2 \<le> length s"
    using unicodeSpaces2_length [of "rev (take 2 (rev s))"] take_length_le [of 2 "rev s"]
    by simp
  have three: "rev (take 3 (rev s)) \<in> set unicodeSpaces3 \<Longrightarrow> 3 \<le> length s"
    using unicodeSpaces3_length [of "rev (take 3 (rev s))"] take_length_le [of 3 "rev s"]
    by simp
  have "trailingSpace s = 0 \<or> trailingSpace s = 1
      \<or> (trailingSpace s = 2 \<and> rev (take 2 (rev s)) \<in> set unicodeSpaces2)
      \<or> (trailingSpace s = 3 \<and> rev (take 3 (rev s)) \<in> set unicodeSpaces3)"
    unfolding trailingSpace_def Cons by simp
  moreover have "1 \<le> length s" using Cons by (cases s) auto
  ultimately show ?thesis using two three by auto
qed

function trimRight :: "string \<Rightarrow> string" where
  "trimRight s =
     (if trailingSpace s = 0 then s else trimRight (take (length s - trailingSpace s) s))"
  by pat_completeness auto
termination
proof (relation "measure length")
  show "wf (measure length)" by simp
next
  fix s :: string
  assume "trailingSpace s \<noteq> 0"
  moreover have "trailingSpace s \<le> length s" by (rule trailingSpace_le)
  ultimately show "(take (length s - trailingSpace s) s, s) \<in> measure length" by simp
qed

declare trimRight.simps [simp del]

text \<open>\<open>strings.TrimSpace\<close>: the string without its leading and trailing white space.\<close>

definition TrimSpace :: "string \<Rightarrow> string" where
  "TrimSpace s = trimRight (trimLeft s)"

text \<open>
  \<open>strings.ToUpper\<close>. ASCII letters are mapped bytewise. Exactly two non-ASCII runes have
  an ASCII upper case: U+017F (bytes C5 BF) maps to S and U+0131 (bytes C4 B1) maps to I.
  Every other non-ASCII rune maps to a non-ASCII rune, and its bytes are left in place
  here: the result is Go's whenever Go's result is pure ASCII, and holds a non-ASCII byte
  whenever Go's does, which is all that a comparison with an ASCII constant depends on.
\<close>

definition upperByte :: "char \<Rightarrow> char" where
  "upperByte c =
     (if 97 \<le> (of_char c :: nat) \<and> (of_char c :: nat) \<le> 122
      then char_of ((of_char c :: nat) - 32) else c)"

fun ToUpper :: "string \<Rightarrow> string" where
  "ToUpper [] = []"
| "ToUpper [c] = [upperByte c]"
| "ToUpper (c # d # cs) =
     (if c = CHR 0xC5 \<and> d = CHR 0xBF then CHR ''S'' # ToUpper cs
      else if c = CHR 0xC4 \<and> d = CHR 0xB1 then CHR ''I'' # ToUpper cs
      else upperByte c # ToUpper (d # cs))"

text \<open>\<open>strings.ContainsAny s chars\<close>: some byte of \<open>chars\<close> (ASCII here) occurs in \<open>s\<close>.\<close>

definition ContainsAny :: "string \<Rightarrow> string \<Rightarrow> bool" where
  "ContainsAny s chars = list_ex (\<lambda>c. c \<in> set chars) s"

text \<open>
  \<open>base64.StdEncoding.EncodeToString\<close>: three bytes become four characters of the
  standard alphabet, the last group is padded with \<open>=\<close>.
\<close>

definition encodeStd :: "string" where
  "encodeStd = ''ABCDEFGHIJKLMNOPQRSTUVWXYZabcdefghijklmnopqrstuvwxyz0123456789+/''"

definition b64 :: "nat \<Rightarrow> char" where
  "b64 n = encodeStd ! (n mod 64)"

fun EncodeToString :: "string \<Rightarrow> string" where
  "EncodeToString [] = []"
| "EncodeToString [a] =
     (let n = of_char a * 65536
      in [b64 (n div 262144), b64 (n div 4096), CHR ''='', CHR ''=''])"
| "EncodeToString [a, b] =
     (let n = of_char a * 65536 + of_char b * 256
      in [b64 (n div 262144), b64 (n div 4096), b64 (n div 64), CHR ''=''])"
| "EncodeToString (a # b # c # rest) =
     (let n = of_char a * 65536 + of_char b * 256 + of_char c
      in [b64 (n div 262144), b64 (n div 4096), b64 (n div 64), b64 n] @ EncodeToString rest)"

text \<open>
  The token bytes of HTTP (RFC 7230 tchar): the bytes of a valid method
  (\<open>net/http\<close>'s validMethod) and of a header name that
  \<open>textproto.CanonicalMIMEHeaderKey\<close> canonicalises.
\<close>

definition isLower :: "char \<Rightarrow> bool" where
  "isLower c = (97 \<le> (of_char c :: nat) \<and> (of_char c :: nat) \<le> 122)"

definition isUpper :: "char \<Rightarrow> bool" where
  "isUpper c = (65 \<le> (of_char c :: nat) \<and> (of_char c :: nat) \<le> 90)"

definition isDigit :: "char \<Rightarrow> bool" where
  "isDigit c = (48 \<le> (of_char c :: nat) \<and> (of_char c :: nat) \<le> 57)"

definition lowerByte :: "char \<Rightarrow> char" where
  "lowerByte c = (if isUpper c then char_of ((of_char c :: nat) + 32) else c)"

definition isTokenByte :: "char \<Rightarrow> bool" where
  "isTokenByte c =
     (isLower c \<or> isUpper c \<or> isDigit c \<or>
      c \<in> set (''!#$%&*+-.^_|~'' @ [CHR 0x27, CHR 0x60]))"

text \<open>
  \<open>textproto.CanonicalMIMEHeaderKey\<close>: a name made of token bytes gets an upper-case
  letter first and after every hyphen and lower-case letters elsewhere; any other name
  is returned unchanged.
\<close>

fun canonicalLoop :: "bool \<Rightarrow> string \<Rightarrow> string" where
  "canonicalLoop upper [] = []"
| "canonicalLoop upper (c # cs) =
     (let c' = (if upper \<and> isLower c then upperByte c
                else if \<not> upper \<and> isUpper c then lowerByte c
                else c)
      in c' # canonicalLoop (c' = CHR ''-'') cs)"

definition CanonicalMIMEHeaderKey :: "string \<Rightarrow> string" where
  "CanonicalMIMEHeaderKey s = (if list_all isTokenByte s then canonicalLoop True s else s)"

section \<open>The wire request: \<open>net/http\<close>'s Request and \<open>net/url\<close>'s URL\<close>

text \<open>The assignment \<open>m[key] = val\<close> on a Go map kept as an association list.\<close>

fun mapAssign :: "('k \<times> 'v) list \<Rightarrow> 'k \<Rightarrow> 'v \<Rightarrow> ('k \<times> 'v) list" where
  "mapAssign [] key val = [(key, val)]"
| "mapAssign ((k, v) # rest) key val =
     (if k = key then (key, val) # rest else (k, v) # mapAssign rest key val)"

text \<open>
  \<open>http.Header\<close> is a Go map from a name to a list of values. The code writes it only
  through \<open>Set\<close>, so it is a HOL map.
\<close>

type_synonym Header = "string \<rightharpoonup> string list"

definition Header_Set :: "Header \<Rightarrow> string \<Rightarrow> string \<Rightarrow> Header" where
  "Header_Set h key val = h(CanonicalMIMEHeaderKey key \<mapsto> [val])"

subsection \<open>The query string (package \<open>net/url\<close>)\<close>

text \<open>
  A URL keeps its query as the raw string \<open>RawQuery\<close>. \<open>url.Values\<close> is a Go map from a
  key to its list of values, here an association list with distinct keys;
  \<open>Values.Encode\<close> iterates over it in sorted key order, so the order of the list is
  immaterial. A missing key reads as the empty list.

  \<open>QueryEscape\<close> leaves letters, digits and \<open>-_.~\<close>, writes a space as \<open>+\<close> and every
  other byte as \<open>%XX\<close>. \<open>QueryUnescape\<close> fails (\<open>None\<close>) on a \<open>%\<close> that is not followed
  by two hexadecimal digits.
\<close>

type_synonym Values = "(string \<times> string list) list"

definition ishex :: "char \<Rightarrow> bool" where
  "ishex c =
     (isDigit c \<or> (97 \<le> (of_char c :: nat) \<and> (of_char c :: nat) \<le> 102)
      \<or> (65 \<le> (of_char c :: nat) \<and> (of_char c :: nat) \<le> 70))"

definition unhex :: "char \<Rightarrow> nat" where
  "unhex c =
     (if isDigit c then of_char c - 48
      else if 97 \<le> (of_char c :: nat) \<and> (of_char c :: nat) \<le> 102 then of_char c - 97 + 10
      else if 65 \<le> (of_char c :: nat) \<and> (of_char c :: nat) \<le> 70 then of_char c - 65 + 10
      else 0)"

definition upperhex :: string where
  "upperhex = ''0123456789ABCDEF''"

definition shouldEscape :: "char \<Rightarrow> bool" where
  "shouldEscape c = (\<not> (isLower c \<or> isUpper c \<or> isDigit c \<or> c \<in> set ''-_.~''))"

fun QueryEscape :: "string \<Rightarrow> string" where
  "QueryEscape [] = []"
| "QueryEscape (c # cs) =
     (if shouldEscape c then
        (if c = CHR '' '' then CHR ''+'' # QueryEscape cs
         else CHR ''%'' # upperhex ! ((of_char c :: nat) div 16)
                # upperhex ! ((of_char c :: nat) mod 16) # QueryEscape cs)
      else c # QueryEscape cs)"

fun QueryUnescape :: "string \<Rightarrow> string option" where
  "QueryUnescape [] = Some []"
| "QueryUnescape (c # cs) =
     (if c = CHR ''%'' then
        (case cs of
           h1 # h2 # rest \<Rightarrow>
             if ishex h1 \<and> ishex h2
             then map_option ((#) (char_of (unhex h1 * 16 + unhex h2))) (QueryUnescape rest)
             else None
         | _ \<Rightarrow> None)
      else if c = CHR ''+'' then map_option ((#) CHR '' '') (QueryUnescape cs)
      else map_option ((#) c) (QueryUnescape cs))"

definition lookupValues :: "Values \<Rightarrow> string \<Rightarrow> string list" where
  "lookupValues m key = (case map_of m key of None \<Rightarrow> [] | Some vs \<Rightarrow> vs)"

definition Values_Set :: "Values \<Rightarrow> string \<Rightarrow> string \<Rightarrow> Values" where
  "Values_Set m key val = mapAssign m key [val]"

text \<open>
  One round of the loop of \<open>url.ParseQuery\<close>: a pair holding a semicolon, an empty
  pair and a pair whose key or value does not unescape leave the map as it is (the
  error they raise is the one \<open>URL.Query\<close> discards); any other pair appends its value
  to the values of its key.
\<close>

definition parsePair :: "Values \<Rightarrow> string \<Rightarrow> Values" where
  "parsePair m pair =
     (if CHR '';'' \<in> set pair then m
      else if pair = [] then m
      else (let key = takeWhile (\<lambda>c. c \<noteq> CHR ''='') pair;
                val = drop 1 (dropWhile (\<lambda>c. c \<noteq> CHR ''='') pair)
            in case QueryUnescape key of
                 None \<Rightarrow> m
               | Some key' \<Rightarrow>
                   (case QueryUnescape val of
                      None \<Rightarrow> m
                    | Some val' \<Rightarrow> mapAssign m key' (lookupValues m key' @ [val']))))"

lemma length_after_cut:
  "query \<noteq> [] \<Longrightarrow> length (dropWhile P query) - Suc 0 < length query"
  using length_dropWhile_le [of P query] by (cases query) auto

function parseQuery :: "Values \<Rightarrow> string \<Rightarrow> Values" where
  "parseQuery m query =
     (if query = [] then m
      else parseQuery (parsePair m (takeWhile (\<lambda>c. c \<noteq> CHR ''&'') query))
             (drop 1 (dropWhile (\<lambda>c. c \<noteq> CHR ''&'') query)))"
  by pat_completeness auto
termination
  by (relation "measure (\<lambda>(m, query). length query)") (simp_all add: length_after_cut)

declare parseQuery.simps [simp del]

text \<open>\<open>Values.Encode\<close>: \<open>key=value\<close> pairs joined by \<open>&\<close>, keys sorted bytewise.\<close>

fun encodeValues :: "string \<Rightarrow> string list \<Rightarrow> string \<Rightarrow> string" where
  "encodeValues keyEscaped [] buf = buf"
| "encodeValues keyEscaped (v # vs) buf =
     encodeValues keyEscaped vs
       ((if length buf > 0 then buf @ ''&'' else buf) @ keyEscaped @ ''='' @ QueryEscape v)"

fun encodeKeys :: "string list \<Rightarrow> Values \<Rightarrow> string \<Rightarrow> string" where
  "encodeKeys [] m buf = buf"
| "encodeKeys (k # keys) m buf =
     encodeKeys keys m (encodeValues (QueryEscape k) (lookupValues m k) buf)"

definition Encode :: "Values \<Rightarrow> string" where
  "Encode m = (if length m = 0 then [] else encodeKeys (sort (map fst m)) m [])"

record net_URL =
  Scheme :: string
  Host :: string
  Path :: string
  RawQuery :: string
  Fragment :: string

text \<open>\<open>URL.Query()\<close>: the values of the raw query, errors discarded.\<close>

definition Query :: "net_URL \<Rightarrow> Values" where
  "Query u = parseQuery [] (RawQuery u)"

record http_Request =
  reqMethod :: string
  reqURL :: net_URL
  reqHeader :: Header
  reqBody :: "string option"
  reqContentLength :: int

section \<open>Errors\<close>

text \<open>
  The sentinel errors of the domain package and the wrapped errors the other packages
  build with \<open>fmt.Errorf\<close>, one constructor each.
\<close>

datatype error =
    ErrInvalidURL
  | ErrInvalidMethod
  | ErrEmptyURL
  | ErrEmptyMethod
  | ErrInvalidHeaderName
  | ErrInvalidQueryParam
  | ErrUnsupportedAuth
  | ErrInvalidAuthConfig
  | ErrMissingUsername
  | ErrMissingPassword
  | ErrMissingToken
  | ErrMissingAPIKey
  | ErrMissingAPIKeyName
  | ErrInvalidAPIKeyLocation
  | FailedToParseURL
  | FailedToCreateHTTPRequest
  | ErrUseLastResponse
  | StoppedAfterRedirects int
  | FailedToReadResponseBody
  | UnknownAuthType string
  | FailedToUnmarshal string

section \<open>Auth strategies (internal/domain/auth.go)\<close>

text \<open>
  The four implementations of the \<open>AuthConfig\<close> interface. \<open>APIKeyLocation\<close> is a Go
  string type, so a location is any string; the two constants are the valid ones.
\<close>

type_synonym APIKeyLocation = string

definition APIKeyLocationHeader :: APIKeyLocation where
  "APIKeyLocationHeader = ''header''"

definition APIKeyLocationQuery :: APIKeyLocation where
  "APIKeyLocationQuery = ''query''"

datatype AuthConfig =
    NoAuth
  | BasicAuth string string
  | BearerAuth string
  | APIKeyAuth string string APIKeyLocation

text \<open>\<open>Validate\<close> of each variant: \<open>None\<close> is Go's nil error.\<close>

definition NoAuth_Validate :: "error option" where
  "NoAuth_Validate = None"

definition BasicAuth_Validate :: "string \<Rightarrow> string \<Rightarrow> error option" where
  "BasicAuth_Validate username password =
     (if TrimSpace username = [] then Some ErrMissingUsername
      else if password = [] then Some ErrMissingPassword
      else None)"

definition BearerAuth_Validate :: "string \<Rightarrow> error option" where
  "BearerAuth_Validate token =
     (if TrimSpace token = [] then Some ErrMissingToken else None)"

definition APIKeyAuth_Validate :: "string \<Rightarrow> string \<Rightarrow> APIKeyLocation \<Rightarrow> error option" where
  "APIKeyAuth_Validate key val location =
     (if TrimSpace key = [] then Some ErrMissingAPIKeyName
      else if TrimSpace val = [] then Some ErrMissingAPIKey
      else if location \<noteq> APIKeyLocationHeader \<and> location \<noteq> APIKeyLocationQuery
        then Some ErrInvalidAPIKeyLocation
      else None)"

fun AuthConfig_Validate :: "AuthConfig \<Rightarrow> error option" where
  "AuthConfig_Validate NoAuth = NoAuth_Validate"
| "AuthConfig_Validate (BasicAuth username password) = BasicAuth_Validate username password"
| "AuthConfig_Validate (BearerAuth token) = BearerAuth_Validate token"
| "AuthConfig_Validate (APIKeyAuth key val location) = APIKeyAuth_Validate key val location"

fun AuthConfig_Type :: "AuthConfig \<Rightarrow> string" where
  "AuthConfig_Type NoAuth = ''none''"
| "AuthConfig_Type (BasicAuth username password) = ''basic''"
| "AuthConfig_Type (BearerAuth token) = ''bearer''"
| "AuthConfig_Type (APIKeyAuth key val location) = ''apikey''"

text \<open>
  \<open>Apply\<close> mutates the wire request it is given: the model returns the error together
  with the wire request as the call leaves it.
\<close>

definition NoAuth_Apply :: "http_Request \<Rightarrow> error option \<times> http_Request" where
  "NoAuth_Apply req = (None, req)"

definition BasicAuth_Apply ::
  "string \<Rightarrow> string \<Rightarrow> http_Request \<Rightarrow> error option \<times> http_Request" where
  "BasicAuth_Apply username password req =
     (case BasicAuth_Validate username password of
        Some err \<Rightarrow> (Some err, req)
      | None \<Rightarrow>
          (let credentials = username @ '':'' @ password;
               encoded = EncodeToString credentials
           in (None, req\<lparr>reqHeader :=
                 Header_Set (reqHeader req) ''Authorization'' (''Basic '' @ encoded)\<rparr>)))"

definition BearerAuth_Apply :: "string \<Rightarrow> http_Request \<Rightarrow> error option \<times> http_Request" where
  "BearerAuth_Apply token req =
     (case BearerAuth_Validate token of
        Some err \<Rightarrow> (Some err, req)
      | None \<Rightarrow>
          (None, req\<lparr>reqHeader :=
             Header_Set (reqHeader req) ''Authorization'' (''Bearer '' @ token)\<rparr>))"

definition APIKeyAuth_Apply ::
  "string \<Rightarrow> string \<Rightarrow> APIKeyLocation \<Rightarrow> http_Request \<Rightarrow> error option \<times> http_Request" where
  "APIKeyAuth_Apply key val location req =
     (case APIKeyAuth_Validate key val location of
        Some err \<Rightarrow> (Some err, req)
      | None \<Rightarrow>
          if location = APIKeyLocationHeader
            then (None, req\<lparr>reqHeader := Header_Set (reqHeader req) key val\<rparr>)
          else if location = APIKeyLocationQuery
            then (let q = Query (reqURL req);
                      q' = Values_Set q key val
                  in (None, req\<lparr>reqURL := (reqURL req)\<lparr>RawQuery := Encode q'\<rparr>\<rparr>))
          else (Some ErrInvalidAPIKeyLocation, req))"

fun AuthConfig_Apply :: "AuthConfig \<Rightarrow> http_Request \<Rightarrow> error option \<times> http_Request" where
  "AuthConfig_Apply NoAuth req = NoAuth_Apply req"
| "AuthConfig_Apply (BasicAuth username password) req = BasicAuth_Apply username password req"
| "AuthConfig_Apply (BearerAuth token) req = BearerAuth_Apply token req"
| "AuthConfig_Apply (APIKeyAuth key val location) req = APIKeyAuth_Apply key val location req"

section \<open>The Request entity and its validation (package domain)\<close>

text \<open>
  A Go \<open>map[string]string\<close> that the code iterates over is an association list with
  distinct keys. Where a function ranges over the map once and is called once, the
  order of the list stands for the order in which the runtime happens to iterate;
  \<open>GetHeader\<close>, whose result is compared across calls, takes the order of its loop as
  an argument. \<open>AuthConfig\<close> is an interface value: \<open>None\<close> is nil.
\<close>

type_synonym StringMap = "(string \<times> string) list"

record Request =
  ID :: string
  Name :: string
  Method :: string
  URL :: string
  Headers :: StringMap
  QueryParams :: StringMap
  Body :: string
  AuthConfig :: "AuthConfig option"
  CreatedAt :: int
  UpdatedAt :: int

definition MethodGet :: string where "MethodGet = ''GET''"
definition MethodPost :: string where "MethodPost = ''POST''"
definition MethodPut :: string where "MethodPut = ''PUT''"
definition MethodPatch :: string where "MethodPatch = ''PATCH''"
definition MethodDelete :: string where "MethodDelete = ''DELETE''"
definition MethodHead :: string where "MethodHead = ''HEAD''"
definition MethodOptions :: string where "MethodOptions = ''OPTIONS''"

definition SupportedMethods :: "string list" where
  "SupportedMethods =
     [MethodGet, MethodPost, MethodPut, MethodPatch, MethodDelete, MethodHead, MethodOptions]"

definition ValidateMethod :: "Request \<Rightarrow> error option" where
  "ValidateMethod r =
     (if TrimSpace (Method r) = [] then Some ErrEmptyMethod
      else (let method = ToUpper (Method r)
            in if method \<in> set SupportedMethods then None
               else Some ErrInvalidMethod))"

text \<open>
  \<open>url.Parse\<close> is the library's parser. The functions that call it take it as the
  parameter \<open>parse\<close>; \<open>None\<close> is a parse error.
\<close>

type_synonym url_Parse = "string \<Rightarrow> net_URL option"

definition ValidateURL :: "url_Parse \<Rightarrow> Request \<Rightarrow> error option" where
  "ValidateURL parse r =
     (if TrimSpace (URL r) = [] then Some ErrEmptyURL
      else (case parse (URL r) of
              None \<Rightarrow> Some ErrInvalidURL
            | Some parsed \<Rightarrow>
                if Scheme parsed \<noteq> ''http'' \<and> Scheme parsed \<noteq> ''https'' then Some ErrInvalidURL
                else if Host parsed = [] then Some ErrInvalidURL
                else None))"

fun validateHeaderNames :: "StringMap \<Rightarrow> error option" where
  "validateHeaderNames [] = None"
| "validateHeaderNames ((name, v) # rest) =
     (if TrimSpace name = [] then Some ErrInvalidHeaderName
      else if ContainsAny name [CHR '':'', CHR 0x0A, CHR 0x0D] then Some ErrInvalidHeaderName
      else validateHeaderNames rest)"

definition ValidateHeaders :: "Request \<Rightarrow> error option" where
  "ValidateHeaders r = validateHeaderNames (Headers r)"

fun validateQueryParamNames :: "StringMap \<Rightarrow> error option" where
  "validateQueryParamNames [] = None"
| "validateQueryParamNames ((name, v) # rest) =
     (if TrimSpace name = [] then Some ErrInvalidQueryParam
      else validateQueryParamNames rest)"

definition ValidateQueryParams :: "Request \<Rightarrow> error option" where
  "ValidateQueryParams r = validateQueryParamNames (QueryParams r)"

text \<open>
  \<open>Validate\<close> has a pointer receiver. The model returns the error together with the
  request as the call leaves it.
\<close>

definition Validate :: "url_Parse \<Rightarrow> Request \<Rightarrow> error option \<times> Request" where
  "Validate parse r =
     (case ValidateMethod r of
        Some err \<Rightarrow> (Some err, r)
      | None \<Rightarrow>
     (case ValidateURL parse r of
        Some err \<Rightarrow> (Some err, r)
      | None \<Rightarrow>
     (case ValidateHeaders r of
        Some err \<Rightarrow> (Some err, r)
      | None \<Rightarrow>
     (case ValidateQueryParams r of
        Some err \<Rightarrow> (Some err, r)
      | None \<Rightarrow>
     (case AuthConfig r of
        Some auth \<Rightarrow>
          (case AuthConfig_Validate auth of
             Some err \<Rightarrow> (Some err, r)
           | None \<Rightarrow> (None, r))
      | None \<Rightarrow> (None, r))))))"

definition IsBodyAllowed :: "Request \<Rightarrow> bool" where
  "IsBodyAllowed r =
     (let method = ToUpper (Method r)
      in if method = MethodPost \<or> method = MethodPut \<or> method = MethodPatch then True
         else False)"

section \<open>Building the wire request (internal/infrastructure/http/client.go)\<close>

fun setQueryParams :: "StringMap \<Rightarrow> Values \<Rightarrow> Values" where
  "setQueryParams [] query = query"
| "setQueryParams ((key, val) # rest) query = setQueryParams rest (Values_Set query key val)"

text \<open>
  \<open>buildURL\<close> returns \<open>parsedURL.String()\<close>, which \<open>http.NewRequestWithContext\<close> parses
  again; the model hands the parsed URL over as it is.
\<close>

definition buildURL :: "url_Parse \<Rightarrow> Request \<Rightarrow> error + net_URL" where
  "buildURL parse req =
     (case parse (URL req) of
        None \<Rightarrow> Inl FailedToParseURL
      | Some parsedURL \<Rightarrow>
          if length (QueryParams req) = 0 then Inr parsedURL
          else (let query = Query parsedURL;
                    query' = setQueryParams (QueryParams req) query
                in Inr (parsedURL\<lparr>RawQuery := Encode query'\<rparr>)))"

text \<open>
  \<open>http.NewRequestWithContext\<close> (library): an empty method means GET, a method must be
  a non-empty token, the context must not be nil, an empty port is removed from the
  host, and a \<open>bytes.Buffer\<close> body sets the content length to its length (a body of
  length 0 becomes \<open>http.NoBody\<close>). \<open>None\<close> is its error.
\<close>

definition validMethod :: "string \<Rightarrow> bool" where
  "validMethod method = (0 < length method \<and> list_all isTokenByte method)"

definition removeEmptyPort :: "string \<Rightarrow> string" where
  "removeEmptyPort host =
     (if host \<noteq> [] \<and> last host = CHR '':'' then butlast host else host)"

definition NewRequestWithContext ::
  "unit option \<Rightarrow> string \<Rightarrow> net_URL \<Rightarrow> string option \<Rightarrow> http_Request option" where
  "NewRequestWithContext ctx method u body =
     (let method' = (if method = [] then ''GET'' else method)
      in if \<not> validMethod method' then None
         else if ctx = None then None
         else Some \<lparr>reqMethod = method',
                    reqURL = u\<lparr>Host := removeEmptyPort (Host u)\<rparr>,
                    reqHeader = Map.empty,
                    reqBody = (case body of None \<Rightarrow> None
                               | Some b \<Rightarrow> if b = [] then None else Some b),
                    reqContentLength = (case body of None \<Rightarrow> 0 | Some b \<Rightarrow> int (length b))\<rparr>)"

fun setHeaders :: "StringMap \<Rightarrow> http_Request \<Rightarrow> http_Request" where
  "setHeaders [] httpReq = httpReq"
| "setHeaders ((name, val) # rest) httpReq =
     setHeaders rest (httpReq\<lparr>reqHeader := Header_Set (reqHeader httpReq) name val\<rparr>)"

definition buildHTTPRequest ::
  "url_Parse \<Rightarrow> unit option \<Rightarrow> Request \<Rightarrow> error + http_Request" where
  "buildHTTPRequest parse ctx req =
     (case buildURL parse req of
        Inl err \<Rightarrow> Inl err
      | Inr requestURL \<Rightarrow>
          (let bodyReader = (if Body req \<noteq> [] \<and> IsBodyAllowed req then Some (Body req) else None)
           in case NewRequestWithContext ctx (ToUpper (Method req)) requestURL bodyReader of
                None \<Rightarrow> Inl FailedToCreateHTTPRequest
              | Some httpReq \<Rightarrow>
                  (let httpReq1 = setHeaders (Headers req) httpReq;
                       httpReq2 = (if Body req \<noteq> [] \<and> IsBodyAllowed req
                                   then httpReq1\<lparr>reqContentLength := int (length (Body req))\<rparr>
                                   else httpReq1)
                   in Inr httpReq2)))"

section \<open>The Response entity (package domain) and its construction\<close>

record Response =
  StatusCode :: int
  Status :: string
  Headers :: StringMap
  Body :: string
  ContentLength :: int
  Duration :: int
  Timestamp :: int
  RequestID :: string

text \<open>
  \<open>net/http\<close>'s Response, as far as the code reads it. The header map is iterated over,
  so it is an association list; \<open>respBody\<close> is what \<open>io.ReadAll\<close> yields, \<open>None\<close> when
  reading fails. \<open>ContentLength\<close> is an int64; a body in memory is shorter than
  \<open>2 ^ 63\<close> bytes, so \<open>int64(len(bodyBytes))\<close> is the length itself.
\<close>

record http_Response =
  respStatusCode :: int
  respStatus :: string
  respHeader :: "(string \<times> string list) list"
  respBody :: "string option"
  respContentLength :: int

fun Join :: "string list \<Rightarrow> string \<Rightarrow> string" where
  "Join [] sep = []"
| "Join [x] sep = x"
| "Join (x # y # rest) sep = x @ sep @ Join (y # rest) sep"

fun convertHeaders :: "(string \<times> string list) list \<Rightarrow> StringMap \<Rightarrow> StringMap" where
  "convertHeaders [] headers = headers"
| "convertHeaders ((name, vals) # rest) headers =
     (if length vals > 0 then convertHeaders rest (mapAssign headers name (Join vals '', ''))
      else convertHeaders rest headers)"

definition buildDomainResponse ::
  "http_Response \<Rightarrow> int \<Rightarrow> int \<Rightarrow> string \<Rightarrow> error + Response" where
  "buildDomainResponse httpResp duration timestamp requestID =
     (case respBody httpResp of
        None \<Rightarrow> Inl FailedToReadResponseBody
      | Some bodyBytes \<Rightarrow>
          (let headers = convertHeaders (respHeader httpResp) [];
               resp = \<lparr>StatusCode = respStatusCode httpResp,
                       Status = respStatus httpResp,
                       Headers = headers,
                       Body = bodyBytes,
                       ContentLength = respContentLength httpResp,
                       Duration = duration,
                       Timestamp = timestamp,
                       RequestID = requestID\<rparr>
           in if ContentLength resp = - 1
              then Inr (resp\<lparr>ContentLength := int (length bodyBytes)\<rparr>)
              else Inr resp))"

subsection \<open>Header lookup\<close>

text \<open>
  \<open>equalsFold\<close> compares byte by byte; \<open>ca += 'a' - 'A'\<close> is an addition on \<open>uint8\<close>,
  which \<open>char_of\<close> takes modulo 256.
\<close>

function equalsFoldLoop :: "nat \<Rightarrow> string \<Rightarrow> string \<Rightarrow> bool" where
  "equalsFoldLoop i a b =
     (if i < length a then
        (let ca = a ! i;
             cb = b ! i;
             ca' = (if 65 \<le> (of_char ca :: nat) \<and> (of_char ca :: nat) \<le> 90
                    then char_of ((of_char ca :: nat) + (97 - 65)) else ca);
             cb' = (if 65 \<le> (of_char cb :: nat) \<and> (of_char cb :: nat) \<le> 90
                    then char_of ((of_char cb :: nat) + (97 - 65)) else cb)
         in if ca' \<noteq> cb' then False else equalsFoldLoop (i + 1) a b)
      else True)"
  by pat_completeness auto
termination
  by (relation "measure (\<lambda>(i, a, b). length a - i)") auto

declare equalsFoldLoop.simps [simp del]

definition equalsFold :: "string \<Rightarrow> string \<Rightarrow> bool" where
  "equalsFold a b = (if length a \<noteq> length b then False else equalsFoldLoop 0 a b)"

text \<open>
  The second pass of \<open>GetHeader\<close> ranges over the Go map \<open>r.Headers\<close>. The runtime
  chooses the order of a range loop anew for every loop, so the order is an argument of
  the call: \<open>order\<close> is the sequence in which this call's loop yields the entries of the
  map. The loop returns the value of the first key, in that order, that folds to the
  name.
\<close>

fun foldedLookup :: "StringMap \<Rightarrow> string \<Rightarrow> string option" where
  "foldedLookup [] name = None"
| "foldedLookup ((key, val) # rest) name =
     (if equalsFold key name then Some val else foldedLookup rest name)"

definition GetHeader :: "StringMap \<Rightarrow> Response \<Rightarrow> string \<Rightarrow> string" where
  "GetHeader order r name =
     (case map_of (Headers r) name of
        Some val \<Rightarrow> val
      | None \<Rightarrow>
          (case foldedLookup order name of
             Some val \<Rightarrow> val
           | None \<Rightarrow> []))"

text \<open>\<open>HasHeader\<close> makes one call of \<open>GetHeader\<close>; \<open>order\<close> is the order of that call's loop.\<close>

definition HasHeader :: "StringMap \<Rightarrow> Response \<Rightarrow> string \<Rightarrow> bool" where
  "HasHeader order r name = (GetHeader order r name \<noteq> [])"

section \<open>The redirect policy (NewClient in client.go)\<close>

record Config =
  Timeout :: int
  MaxRedirects :: int
  InsecureSkipTLS :: bool
  FollowRedirects :: bool
  DialTimeout :: int
  TLSHandshakeTimeout :: int
  ResponseHeaderTimeout :: int
  KeepAlive :: int
  IdleConnTimeout :: int

text \<open>
  The closure \<open>checkRedirect\<close> that \<open>NewClient\<close> installs as the client's
  \<open>CheckRedirect\<close>. \<open>None\<close> is nil: the redirect is followed.
\<close>

definition checkRedirect :: "Config \<Rightarrow> http_Request \<Rightarrow> http_Request list \<Rightarrow> error option" where
  "checkRedirect config req via =
     (if \<not> FollowRedirects config then Some ErrUseLastResponse
      else if int (length via) \<ge> MaxRedirects config
        then Some (StoppedAfterRedirects (MaxRedirects config))
      else None)"

text \<open>
  How \<open>net/http\<close>'s \<open>Client.Do\<close> drives the policy (library behaviour, documented with
  \<open>Client.CheckRedirect\<close>): the client sends the request; when the response is a
  redirect (status 301, 302, 303, 307 or 308 with a \<open>Location\<close> header) it calls
  \<open>CheckRedirect\<close> with the upcoming request and \<open>via\<close>, the requests made already,
  oldest first, so \<open>via\<close> holds the original request at the first redirect. On
  \<open>ErrUseLastResponse\<close> it returns the redirect response with no error, on any other
  error it fails with that error, and on nil it sends the next request.

  The transport is the function \<open>send\<close>: \<open>send n\<close> is the outcome of the request sent
  after \<open>n\<close> earlier ones.
\<close>

type_synonym transport = "nat \<Rightarrow> error + http_Response"

definition headerGet :: "(string \<times> string list) list \<Rightarrow> string \<Rightarrow> string" where
  "headerGet h key =
     (case map_of h (CanonicalMIMEHeaderKey key) of
        Some (v # vs) \<Rightarrow> v
      | _ \<Rightarrow> [])"

definition shouldRedirect :: "http_Response \<Rightarrow> bool" where
  "shouldRedirect resp =
     (respStatusCode resp \<in> set [301, 302, 303, 307, 308] \<and>
      headerGet (respHeader resp) ''Location'' \<noteq> [])"

function clientDo ::
  "Config \<Rightarrow> transport \<Rightarrow> http_Request \<Rightarrow> http_Request list \<Rightarrow> error + http_Response" where
  "clientDo config send req reqs =
     (case send (length reqs) of
        Inl err \<Rightarrow> Inl err
      | Inr resp \<Rightarrow>
          if \<not> shouldRedirect resp then Inr resp
          else (case checkRedirect config req (reqs @ [req]) of
                  None \<Rightarrow> clientDo config send req (reqs @ [req])
                | Some err \<Rightarrow> if err = ErrUseLastResponse then Inr resp else Inl err))"
  by pat_completeness auto
termination
proof (relation "measure (\<lambda>(config, send, req, reqs). nat (MaxRedirects config - int (length reqs)))")
  show "wf (measure (\<lambda>(config, send, req, reqs). nat (MaxRedirects config - int (length reqs))))"
    by simp
next
  fix config :: Config and send :: transport and req :: http_Request
    and reqs :: "http_Request list" and resp :: http_Response
  assume "checkRedirect config req (reqs @ [req]) = None"
  then have "int (length reqs) + 1 < MaxRedirects config"
    by (simp add: checkRedirect_def split: if_splits)
  then show "((config, send, req, reqs @ [req]), (config, send, req, reqs))
      \<in> measure (\<lambda>(config, send, req, reqs). nat (MaxRedirects config - int (length reqs)))"
    by simp
qed

declare clientDo.simps [simp del]

text \<open>\<open>c.client.Do(httpReq)\<close>: the loop starts with no request made.\<close>

definition Do :: "Config \<Rightarrow> transport \<Rightarrow> http_Request \<Rightarrow> error + http_Response" where
  "Do config send req = clientDo config send req []"

section \<open>Persisting an auth strategy (package sqlite, request repository)\<close>

text \<open>
  The column \<open>auth_config\<close> holds a JSON text. The model works on the JSON value a text
  denotes; the two library functions are \<open>json.Marshal\<close>, from a Go value to the value
  its output denotes, and \<open>json.Unmarshal\<close>, from a text (\<open>None\<close> when it is not
  well-formed JSON, else the value it denotes) into a struct of string fields.
\<close>

datatype json =
    JNull
  | JBool bool
  | JNumber int
  | JString string
  | JArray "json list"
  | JObject "(string \<times> json) list"

text \<open>
  \<open>json.Marshal\<close> coerces a string to valid UTF-8: every byte at which no valid
  encoding starts is replaced by U+FFFD (bytes EF BF BD). \<open>runeWidth\<close> is the length of
  the valid encoding a string starts with, 0 when there is none
  (\<open>utf8.DecodeRuneInString\<close>).
\<close>

definition byteIn :: "string \<Rightarrow> nat \<Rightarrow> nat \<Rightarrow> nat \<Rightarrow> bool" where
  "byteIn s i lo hi =
     (i < length s \<and> lo \<le> (of_char (s ! i) :: nat) \<and> (of_char (s ! i) :: nat) \<le> hi)"

definition runeSize :: "nat \<Rightarrow> nat" where
  "runeSize b =
     (if b < 0x80 then 1
      else if 0xC2 \<le> b \<and> b \<le> 0xDF then 2
      else if 0xE0 \<le> b \<and> b \<le> 0xEF then 3
      else if 0xF0 \<le> b \<and> b \<le> 0xF4 then 4
      else 0)"

definition acceptLo :: "nat \<Rightarrow> nat" where
  "acceptLo b = (if b = 0xE0 then 0xA0 else if b = 0xF0 then 0x90 else 0x80)"

definition acceptHi :: "nat \<Rightarrow> nat" where
  "acceptHi b = (if b = 0xED then 0x9F else if b = 0xF4 then 0x8F else 0xBF)"

definition runeWidth :: "string \<Rightarrow> nat" where
  "runeWidth s =
     (case s of
        [] \<Rightarrow> 0
      | c # cs \<Rightarrow>
          (let b = (of_char c :: nat); sz = runeSize b in
           if sz \<le> 1 then sz
           else if length s < sz then 0
           else if \<not> byteIn s 1 (acceptLo b) (acceptHi b) then 0
           else if sz \<le> 2 then 2
           else if \<not> byteIn s 2 0x80 0xBF then 0
           else if sz \<le> 3 then 3
           else if \<not> byteIn s 3 0x80 0xBF then 0
           else 4))"

lemma runeWidth_le: "runeWidth s \<le> length s"
proof (cases s)
  case Nil
  then show ?thesis by (simp add: runeWidth_def)
next
  case (Cons c cs)
  define sz where "sz = runeSize (of_char c)"
  have "runeWidth s = 0 \<or> (runeWidth s \<le> 1 \<and> 1 \<le> length s) \<or> (runeWidth s \<le> sz \<and> sz \<le> length s)"
    unfolding runeWidth_def Cons list.case Let_def sz_def [symmetric] by auto
  then show ?thesis by auto
qed

function toValidUTF8 :: "string \<Rightarrow> string" where
  "toValidUTF8 s =
     (if s = [] then []
      else if runeWidth s = 0 then [CHR 0xEF, CHR 0xBF, CHR 0xBD] @ toValidUTF8 (drop 1 s)
      else take (runeWidth s) s @ toValidUTF8 (drop (runeWidth s) s))"
  by pat_completeness auto
termination
proof (relation "measure length")
  show "wf (measure length)" by simp
next
  fix s :: string
  assume "s \<noteq> []"
  then show "(drop 1 s, s) \<in> measure length" by (cases s) auto
next
  fix s :: string
  assume "s \<noteq> []" and "runeWidth s \<noteq> 0"
  then show "(drop (runeWidth s) s, s) \<in> measure length" by (cases s) auto
qed

declare toValidUTF8.simps [simp del]

text \<open>
  \<open>json.Marshal\<close> of a \<open>map[string]interface{}\<close> whose values are strings: an object
  with the keys in sorted order (the maps below are written in that order).
\<close>

definition Marshal :: "(string \<times> string) list \<Rightarrow> json" where
  "Marshal m = JObject (map (\<lambda>(k, v). (k, JString (toValidUTF8 v))) m)"

text \<open>
  \<open>json.Unmarshal\<close> into a struct whose fields are strings named by \<open>json\<close> tags. A key
  selects the field with that name or, failing that, a field equal to it under case
  folding; other keys are skipped. A string sets the field, \<open>null\<close> leaves it, any other
  value is an error. The text \<open>null\<close> leaves the struct as it is; any other text that
  is not an object is an error. The struct is the map from field names to values, an
  absent name being the zero value \<open>""\<close>.

  The field names are ASCII, and the runes that fold to an ASCII letter are the letter
  in either case, U+017F (for s) and U+212A (for k).
\<close>

fun foldName :: "string \<Rightarrow> string" where
  "foldName [] = []"
| "foldName [c] = [upperByte c]"
| "foldName [c, d] =
     (if c = CHR 0xC5 \<and> d = CHR 0xBF then ''S'' else upperByte c # foldName [d])"
| "foldName (c # d # e # cs) =
     (if c = CHR 0xC5 \<and> d = CHR 0xBF then CHR ''S'' # foldName (e # cs)
      else if c = CHR 0xE2 \<and> d = CHR 0x84 \<and> e = CHR 0xAA then CHR ''K'' # foldName cs
      else upperByte c # foldName (d # e # cs))"

definition matchField :: "string list \<Rightarrow> string \<Rightarrow> string option" where
  "matchField names key =
     (if key \<in> set names then Some key
      else find (\<lambda>f. foldName f = foldName key) names)"

fun decodeObject ::
  "string list \<Rightarrow> (string \<times> json) list \<Rightarrow> (string \<rightharpoonup> string) \<Rightarrow> (string \<rightharpoonup> string) option" where
  "decodeObject names [] config = Some config"
| "decodeObject names ((key, v) # rest) config =
     (case matchField names key of
        None \<Rightarrow> decodeObject names rest config
      | Some f \<Rightarrow>
          (case v of
             JString str \<Rightarrow> decodeObject names rest (config(f \<mapsto> str))
           | JNull \<Rightarrow> decodeObject names rest config
           | _ \<Rightarrow> None))"

definition Unmarshal :: "string list \<Rightarrow> json option \<Rightarrow> (string \<rightharpoonup> string) option" where
  "Unmarshal names text =
     (case text of
        None \<Rightarrow> None
      | Some JNull \<Rightarrow> Some Map.empty
      | Some (JObject members) \<Rightarrow> decodeObject names members Map.empty
      | Some _ \<Rightarrow> None)"

definition field :: "(string \<rightharpoonup> string) \<Rightarrow> string \<Rightarrow> string" where
  "field config name = (case config name of None \<Rightarrow> [] | Some v \<Rightarrow> v)"

text \<open>
  \<open>serializeAuthConfig\<close>: a nil strategy and \<open>NoAuth\<close> give the empty object. The
  \<open>default\<close> branch of the type switch (an error for a foreign implementation of the
  interface) has no value to take here, the four variants being all there are.
\<close>

fun serializeAuthConfig :: "AuthConfig option \<Rightarrow> error + json" where
  "serializeAuthConfig None = Inr (Marshal [])"
| "serializeAuthConfig (Some NoAuth) = Inr (Marshal [])"
| "serializeAuthConfig (Some (BasicAuth username password)) =
     Inr (Marshal [(''password'', password), (''username'', username)])"
| "serializeAuthConfig (Some (BearerAuth token)) = Inr (Marshal [(''token'', token)])"
| "serializeAuthConfig (Some (APIKeyAuth key val location)) =
     Inr (Marshal [(''key'', key), (''location'', location), (''value'', val)])"

definition deserializeAuthConfig :: "string \<Rightarrow> json option \<Rightarrow> error + AuthConfig" where
  "deserializeAuthConfig authType configJSON =
     (if authType = [] \<or> authType = ''none'' then Inr NoAuth
      else if authType = ''basic'' then
        (case Unmarshal [''username'', ''password''] configJSON of
           None \<Rightarrow> Inl (FailedToUnmarshal ''basic'')
         | Some config \<Rightarrow> Inr (BasicAuth (field config ''username'') (field config ''password'')))
      else if authType = ''bearer'' then
        (case Unmarshal [''token''] configJSON of
           None \<Rightarrow> Inl (FailedToUnmarshal ''bearer'')
         | Some config \<Rightarrow> Inr (BearerAuth (field config ''token'')))
      else if authType = ''apikey'' then
        (case Unmarshal [''key'', ''value'', ''location''] configJSON of
           None \<Rightarrow> Inl (FailedToUnmarshal ''apikey'')
         | Some config \<Rightarrow>
             Inr (APIKeyAuth (field config ''key'') (field config ''value'')
                    (field config ''location'')))
      else Inl (UnknownAuthType authType))"

text \<open>
  What \<open>Create\<close> and \<open>Update\<close> store for a request's strategy, and what \<open>buildRequest\<close>
  makes of the stored pair: the discriminator is \<open>Type()\<close>, or \<open>""\<close> for nil.
\<close>

definition storeAuth :: "AuthConfig option \<Rightarrow> error + (string \<times> json)" where
  "storeAuth auth =
     (case serializeAuthConfig auth of
        Inl err \<Rightarrow> Inl err
      | Inr authConfigJSON \<Rightarrow>
          Inr (case auth of None \<Rightarrow> [] | Some a \<Rightarrow> AuthConfig_Type a, authConfigJSON))"

section \<open>Notions used to state the properties\<close>

text \<open>A JSON value that is a string.\<close>

definition isJString :: "json \<Rightarrow> bool" where
  "isJString v = (case v of JString str \<Rightarrow> True | _ \<Rightarrow> False)"

text \<open>
  The error of the first failing check in a list of check results, in the words of the
  specification of \<open>validate\<close>: \<open>None\<close> when no check fails.
\<close>

fun firstError :: "error option list \<Rightarrow> error option" where
  "firstError [] = None"
| "firstError (None # checks) = firstError checks"
| "firstError (Some err # checks) = Some err"

text \<open>The fifth check of \<open>Validate\<close>: the strategy's own validation, when there is a strategy.\<close>

definition authCheck :: "Request \<Rightarrow> error option" where
  "authCheck r = (case AuthConfig r of None \<Rightarrow> None | Some auth \<Rightarrow> AuthConfig_Validate auth)"

text \<open>
  Two bytes are the same letter when they are equal or are the upper-case and the
  lower-case form of one ASCII letter, which lie 32 apart.
\<close>

definition sameLetter :: "char \<Rightarrow> char \<Rightarrow> bool" where
  "sameLetter x y =
     (x = y \<or>
      (isUpper x \<and> (of_char y :: nat) = of_char x + 32) \<or>
      (isUpper y \<and> (of_char x :: nat) = of_char y + 32))"

text \<open>A string is valid UTF-8 when the coercion of \<open>json.Marshal\<close> leaves it as it is.\<close>

definition validUTF8 :: "string \<Rightarrow> bool" where
  "validUTF8 s = (toValidUTF8 s = s)"

fun fieldsValidUTF8 :: "AuthConfig \<Rightarrow> bool" where
  "fieldsValidUTF8 NoAuth = True"
| "fieldsValidUTF8 (BasicAuth username password) = (validUTF8 username \<and> validUTF8 password)"
| "fieldsValidUTF8 (BearerAuth token) = validUTF8 token"
| "fieldsValidUTF8 (APIKeyAuth key val location) =
     (validUTF8 key \<and> validUTF8 val \<and> validUTF8 location)"

fun coerceFields :: "AuthConfig \<Rightarrow> AuthConfig" where
  "coerceFields NoAuth = NoAuth"
| "coerceFields (BasicAuth username password) =
     BasicAuth (toValidUTF8 username) (toValidUTF8 password)"
| "coerceFields (BearerAuth token) = BearerAuth (toValidUTF8 token)"
| "coerceFields (APIKeyAuth key val location) =
     APIKeyAuth (toValidUTF8 key) (toValidUTF8 val) (toValidUTF8 location)"

text \<open>
  The members of a JSON object that \<open>Unmarshal\<close> accepts for a struct with the given
  field names: every member whose key selects a field is a string or \<open>null\<close>.
\<close>

definition membersDecode :: "string list \<Rightarrow> (string \<times> json) list \<Rightarrow> bool" where
  "membersDecode names members =
     list_all (\<lambda>(k, v). matchField names k = None \<or> isJString v \<or> v = JNull) members"

text \<open>
  An enumeration of a Go map: a sequence in which a range loop can yield its entries,
  each entry once.
\<close>

definition enumerates :: "StringMap \<Rightarrow> StringMap \<Rightarrow> bool" where
  "enumerates order m = (distinct (map fst order) \<and> set order = set m)"

text \<open>
  For the query string: the text of one pair as \<open>Encode\<close> writes it, the effect of one
  well-formed pair on the values, the pairs \<open>Encode\<close> writes for a list of keys, the
  buffer after a list of pairs is written, and the values \<open>ParseQuery\<close> and \<open>Set\<close>
  produce: distinct keys, no key with an empty list.
\<close>

definition seg :: "string \<times> string \<Rightarrow> string" where
  "seg p = QueryEscape (fst p) @ ''='' @ QueryEscape (snd p)"

definition addPair :: "Values \<Rightarrow> string \<times> string \<Rightarrow> Values" where
  "addPair m p = mapAssign m (fst p) (lookupValues m (fst p) @ [snd p])"

definition pairsOf :: "string list \<Rightarrow> Values \<Rightarrow> (string \<times> string) list" where
  "pairsOf keys m = concat (map (\<lambda>k. map (Pair k) (lookupValues m k)) keys)"

definition joinBuf :: "string \<Rightarrow> string list \<Rightarrow> string" where
  "joinBuf buf segs = foldl (\<lambda>b s. (if length b > 0 then b @ ''&'' else b) @ s) buf segs"

definition wellformed :: "Values \<Rightarrow> bool" where
  "wellformed m = (distinct (map fst m) \<and> [] \<notin> snd ` set m)"

subsection \<open>Concrete inputs\<close>

text \<open>
  The inputs at which the theorems below are instantiated. \<open>exampleParse\<close> is what
  \<open>url.Parse\<close> returns on the four URLs used.
\<close>

definition exampleParse :: url_Parse where
  "exampleParse s =
     (if s = ''http://x/path?existing=value''
      then Some \<lparr>Scheme = ''http'', Host = ''x'', Path = ''/path'',
                 RawQuery = ''existing=value'', Fragment = []\<rparr>
      else if s = ''http://x/path?existing=value&page=1''
      then Some \<lparr>Scheme = ''http'', Host = ''x'', Path = ''/path'',
                 RawQuery = ''existing=value&page=1'', Fragment = []\<rparr>
      else if s = ''http://x/search?q=50%&page=2''
      then Some \<lparr>Scheme = ''http'', Host = ''x'', Path = ''/search'',
                 RawQuery = ''q=50%&page=2'', Fragment = []\<rparr>
      else if s = ''ftp://x''
      then Some \<lparr>Scheme = ''ftp'', Host = ''x'', Path = [], RawQuery = [], Fragment = []\<rparr>
      else None)"

definition exampleRequest :: Request where
  "exampleRequest =
     \<lparr>ID = ''1'', Name = ''example'', Method = ''post'', URL = ''http://x/path?existing=value'',
      Headers = [(''accept'', ''application/json'')],
      QueryParams = [(''existing'', ''new''), (''api_key'', ''secret'')],
      Body = ''hello'', AuthConfig = Some NoAuth, CreatedAt = 0, UpdatedAt = 0\<rparr>"

text \<open>The same request on a URL whose query also has a key of its own, \<open>page\<close>.\<close>

definition mergeRequest :: Request where
  "mergeRequest = exampleRequest\<lparr>URL := ''http://x/path?existing=value&page=1''\<rparr>"

text \<open>
  A request with one query parameter on a URL whose query has the malformed pair
  \<open>q=50%\<close> before \<open>page=2\<close>.
\<close>

definition malformedRequest :: Request where
  "malformedRequest =
     exampleRequest\<lparr>URL := ''http://x/search?q=50%&page=2'', QueryParams := [(''k'', ''v'')]\<rparr>"

text \<open>
  A response whose header map has two keys that fold to one name, and the two orders in
  which a range loop can yield them.
\<close>

definition twoCaseHeaders :: StringMap where
  "twoCaseHeaders = [(''X-A'', []), (''x-a'', ''v'')]"

definition twoCaseResponse :: Response where
  "twoCaseResponse =
     \<lparr>StatusCode = 200, Status = ''200 OK'', Headers = twoCaseHeaders, Body = [],
      ContentLength = 0, Duration = 0, Timestamp = 0, RequestID = ''1''\<rparr>"

text \<open>A response with an empty-valued header and a \<open>Content-Type\<close>.\<close>

definition htmlResponse :: Response where
  "htmlResponse =
     \<lparr>StatusCode = 200, Status = ''200 OK'',
      Headers = [(''X-Empty'', []), (''Content-Type'', ''text/html'')], Body = [],
      ContentLength = 0, Duration = 0, Timestamp = 0, RequestID = ''1''\<rparr>"

text \<open>A request that fails every check of \<open>Validate\<close> at once.\<close>

definition brokenRequest :: Request where
  "brokenRequest =
     \<lparr>ID = ''2'', Name = ''broken'', Method = ''FETCH'', URL = ''ftp://x'',
      Headers = [(''a:b'', ''v'')], QueryParams = [('' '', ''v'')],
      Body = [], AuthConfig = Some (BearerAuth []), CreatedAt = 0, UpdatedAt = 0\<rparr>"

definition exampleWire :: http_Request where
  "exampleWire =
     \<lparr>reqMethod = ''GET'',
      reqURL = \<lparr>Scheme = ''http'', Host = ''x'', Path = ''/redirect'', RawQuery = [],
                Fragment = []\<rparr>,
      reqHeader = Map.empty, reqBody = None, reqContentLength = 0\<rparr>"

definition exampleConfig :: "int \<Rightarrow> bool \<Rightarrow> Config" where
  "exampleConfig maxRedirects follow =
     \<lparr>Timeout = 5000, MaxRedirects = maxRedirects, InsecureSkipTLS = False,
      FollowRedirects = follow, DialTimeout = 0, TLSHandshakeTimeout = 0,
      ResponseHeaderTimeout = 0, KeepAlive = 0, IdleConnTimeout = 0\<rparr>"

definition found302 :: http_Response where
  "found302 =
     \<lparr>respStatusCode = 302, respStatus = ''302 Found'',
      respHeader = [(''Location'', [''/redirect''])], respBody = Some [],
      respContentLength = 0\<rparr>"

definition ok200 :: http_Response where
  "ok200 =
     \<lparr>respStatusCode = 200, respStatus = ''200 OK'', respHeader = [],
      respBody = Some ''Success'', respContentLength = 7\<rparr>"

text \<open>A server that answers its first \<open>k\<close> requests with a 302 and the next with a 200.\<close>

definition redirectsThenOK :: "nat \<Rightarrow> transport" where
  "redirectsThenOK k n = (if n < k then Inr found302 else Inr ok200)"

text \<open>A server that redirects indefinitely.\<close>

definition alwaysRedirects :: transport where
  "alwaysRedirects n = Inr found302"

section \<open>Properties\<close>

subsection \<open>Deserializing a stored strategy\<close>

text \<open>
  \<open>Unmarshal\<close> succeeds exactly on the text \<open>null\<close> and on an object in which every
  member whose key selects a field is a string or \<open>null\<close>.
\<close>

lemma decodeObject_iff:
  "decodeObject names members config \<noteq> None \<longleftrightarrow> membersDecode names members"
proof (induction members arbitrary: config)
  case Nil
  then show ?case by (simp add: membersDecode_def)
next
  case (Cons m members)
  obtain k v where m: "m = (k, v)" by (cases m)
  have tail: "membersDecode names (m # members) \<longleftrightarrow>
      (matchField names k = None \<or> isJString v \<or> v = JNull) \<and> membersDecode names members"
    by (simp add: membersDecode_def m)
  show ?case
  proof (cases "matchField names k")
    case None
    then show ?thesis using Cons.IH tail by (simp add: m)
  next
    case (Some f)
    then show ?thesis
      using Cons.IH tail by (cases v) (simp_all add: m isJString_def)
  qed
qed

lemma Unmarshal_iff:
  "Unmarshal names text \<noteq> None \<longleftrightarrow>
     text = Some JNull \<or> (\<exists>members. text = Some (JObject members) \<and> membersDecode names members)"
proof (cases "text")
  case None
  then show ?thesis by (simp add: Unmarshal_def)
next
  case (Some j)
  then show ?thesis
    using decodeObject_iff [of names _ Map.empty]
    by (cases j) (simp_all add: Unmarshal_def)
qed

text \<open>
  C1, as the code has it. The absent discriminator \<open>""\<close> and \<open>"none"\<close> give \<open>NoAuth\<close> and
  no error, whatever the stored text. Any discriminator other than \<open>""\<close>, \<open>"none"\<close>,
  \<open>"basic"\<close>, \<open>"bearer"\<close>, \<open>"apikey"\<close> gives the error "unknown auth type" and no
  strategy. Each of \<open>"basic"\<close>, \<open>"bearer"\<close>, \<open>"apikey"\<close> gives, whenever the stored text
  unmarshals, its own variant with the fields the text sets and \<open>""\<close> for the others,
  and the unmarshal error whenever it does not. The text unmarshals exactly when it is
  \<open>null\<close> or an object in which every member naming a field is a string or \<open>null\<close>; on
  \<open>null\<close> every field is \<open>""\<close>.
\<close>

theorem deserializeAuthConfig_discriminators:
  "deserializeAuthConfig [] text = Inr NoAuth \<and>
   deserializeAuthConfig ''none'' text = Inr NoAuth \<and>
   (t \<noteq> [] \<and> t \<noteq> ''none'' \<and> t \<noteq> ''basic'' \<and> t \<noteq> ''bearer'' \<and> t \<noteq> ''apikey'' \<longrightarrow>
      deserializeAuthConfig t text = Inl (UnknownAuthType t)) \<and>
   (Unmarshal [''username'', ''password''] text = Some config \<longrightarrow>
      deserializeAuthConfig ''basic'' text =
        Inr (BasicAuth (field config ''username'') (field config ''password''))) \<and>
   (Unmarshal [''token''] text = Some config \<longrightarrow>
      deserializeAuthConfig ''bearer'' text = Inr (BearerAuth (field config ''token''))) \<and>
   (Unmarshal [''key'', ''value'', ''location''] text = Some config \<longrightarrow>
      deserializeAuthConfig ''apikey'' text =
        Inr (APIKeyAuth (field config ''key'') (field config ''value'')
               (field config ''location''))) \<and>
   (Unmarshal [''username'', ''password''] text = None \<longrightarrow>
      deserializeAuthConfig ''basic'' text = Inl (FailedToUnmarshal ''basic'')) \<and>
   (Unmarshal [''token''] text = None \<longrightarrow>
      deserializeAuthConfig ''bearer'' text = Inl (FailedToUnmarshal ''bearer'')) \<and>
   (Unmarshal [''key'', ''value'', ''location''] text = None \<longrightarrow>
      deserializeAuthConfig ''apikey'' text = Inl (FailedToUnmarshal ''apikey'')) \<and>
   (Unmarshal names text \<noteq> None \<longleftrightarrow>
      text = Some JNull \<or>
      (\<exists>members. text = Some (JObject members) \<and> membersDecode names members)) \<and>
   deserializeAuthConfig ''basic'' (Some JNull) = Inr (BasicAuth [] []) \<and>
   deserializeAuthConfig ''bearer'' (Some JNull) = Inr (BearerAuth []) \<and>
   deserializeAuthConfig ''apikey'' (Some JNull) = Inr (APIKeyAuth [] [] [])"
proof -
  have a: "deserializeAuthConfig [] text = Inr NoAuth"
    by (simp add: deserializeAuthConfig_def)
  have b: "deserializeAuthConfig ''none'' text = Inr NoAuth"
    by (simp add: deserializeAuthConfig_def)
  have c: "t \<noteq> [] \<and> t \<noteq> ''none'' \<and> t \<noteq> ''basic'' \<and> t \<noteq> ''bearer'' \<and> t \<noteq> ''apikey'' \<longrightarrow>
      deserializeAuthConfig t text = Inl (UnknownAuthType t)"
    by (simp add: deserializeAuthConfig_def)
  have d1: "Unmarshal [''username'', ''password''] text = Some config \<longrightarrow>
      deserializeAuthConfig ''basic'' text =
        Inr (BasicAuth (field config ''username'') (field config ''password''))"
    by (simp add: deserializeAuthConfig_def)
  have d2: "Unmarshal [''token''] text = Some config \<longrightarrow>
      deserializeAuthConfig ''bearer'' text = Inr (BearerAuth (field config ''token''))"
    by (simp add: deserializeAuthConfig_def)
  have d3: "Unmarshal [''key'', ''value'', ''location''] text = Some config \<longrightarrow>
      deserializeAuthConfig ''apikey'' text =
        Inr (APIKeyAuth (field config ''key'') (field config ''value'')
               (field config ''location''))"
    by (simp add: deserializeAuthConfig_def)
  have e: "Unmarshal [''username'', ''password''] text = None \<longrightarrow>
      deserializeAuthConfig ''basic'' text = Inl (FailedToUnmarshal ''basic'')"
    by (simp add: deserializeAuthConfig_def)
  have f: "Unmarshal [''token''] text = None \<longrightarrow>
      deserializeAuthConfig ''bearer'' text = Inl (FailedToUnmarshal ''bearer'')"
    by (simp add: deserializeAuthConfig_def)
  have g: "Unmarshal [''key'', ''value'', ''location''] text = None \<longrightarrow>
      deserializeAuthConfig ''apikey'' text = Inl (FailedToUnmarshal ''apikey'')"
    by (simp add: deserializeAuthConfig_def)
  have h: "Unmarshal names text \<noteq> None \<longleftrightarrow>
      text = Some JNull \<or>
      (\<exists>members. text = Some (JObject members) \<and> membersDecode names members)"
    by (rule Unmarshal_iff)
  have n1: "deserializeAuthConfig ''basic'' (Some JNull) = Inr (BasicAuth [] [])"
    by (simp add: deserializeAuthConfig_def Unmarshal_def field_def)
  have n2: "deserializeAuthConfig ''bearer'' (Some JNull) = Inr (BearerAuth [])"
    by (simp add: deserializeAuthConfig_def Unmarshal_def field_def)
  have n3: "deserializeAuthConfig ''apikey'' (Some JNull) = Inr (APIKeyAuth [] [] [])"
    by (simp add: deserializeAuthConfig_def Unmarshal_def field_def)
  from a b c d1 d2 d3 e f g h n1 n2 n3 show ?thesis by blast
qed

text \<open>
  The theorem at the discriminator \<open>"digest"\<close>, and for \<open>"basic"\<close> at an object that sets
  both fields (one key in another case), an object with a \<open>null\<close> member, an object
  with a member that names no field, an object that gives a field a number, a text
  that is an array and a text that is not JSON.
\<close>

theorem deserializeAuthConfig_discriminators_witness:
  "deserializeAuthConfig ''digest'' (Some (JArray [])) = Inl (UnknownAuthType ''digest'') \<and>
   deserializeAuthConfig ''basic''
       (Some (JObject [(''username'', JString ''u''), (''Password'', JString ''p'')]))
     = Inr (BasicAuth ''u'' ''p'') \<and>
   deserializeAuthConfig ''basic'' (Some (JObject [(''username'', JNull)]))
     = Inr (BasicAuth [] []) \<and>
   deserializeAuthConfig ''basic'' (Some (JObject [(''other'', JNumber 5)]))
     = Inr (BasicAuth [] []) \<and>
   deserializeAuthConfig ''basic'' (Some (JObject [(''username'', JNumber 5)]))
     = Inl (FailedToUnmarshal ''basic'') \<and>
   deserializeAuthConfig ''basic'' (Some (JArray [])) = Inl (FailedToUnmarshal ''basic'') \<and>
   deserializeAuthConfig ''basic'' None = Inl (FailedToUnmarshal ''basic'')"
proof -
  define names where "names = [''username'', ''password'']"
  define c1 where "c1 = [''username'' \<mapsto> ''u'', ''password'' \<mapsto> ''p'']"
  have m1: "matchField [''username'', ''password''] ''username'' = Some ''username''"
    by code_simp
  have m2: "matchField [''username'', ''password''] ''Password'' = Some ''password''"
    by code_simp
  have m3: "matchField [''username'', ''password''] ''other'' = None"
    by code_simp
  have u1: "Unmarshal [''username'', ''password'']
      (Some (JObject [(''username'', JString ''u''), (''Password'', JString ''p'')])) = Some c1"
    by (simp add: c1_def Unmarshal_def m1 m2)
  have u2: "Unmarshal [''username'', ''password''] (Some (JObject [(''username'', JNull)]))
      = Some Map.empty"
    by (simp add: Unmarshal_def m1)
  have u3: "Unmarshal [''username'', ''password''] (Some (JObject [(''other'', JNumber 5)]))
      = Some Map.empty"
    by (simp add: Unmarshal_def m3)
  have u4: "Unmarshal [''username'', ''password''] (Some (JObject [(''username'', JNumber 5)]))
      = None"
    by (simp add: Unmarshal_def m1)
  have u5: "Unmarshal [''username'', ''password''] (Some (JArray [])) = None"
    by (simp add: Unmarshal_def)
  have u6: "Unmarshal [''username'', ''password''] None = None"
    by (simp add: Unmarshal_def)
  show ?thesis
    using deserializeAuthConfig_discriminators
        [of "Some (JArray [])" "''digest''" Map.empty names]
      deserializeAuthConfig_discriminators
        [of "Some (JObject [(''username'', JString ''u''), (''Password'', JString ''p'')])"
            "[]" c1 names]
      deserializeAuthConfig_discriminators
        [of "Some (JObject [(''username'', JNull)])" "[]" Map.empty names]
      deserializeAuthConfig_discriminators
        [of "Some (JObject [(''other'', JNumber 5)])" "[]" Map.empty names]
      deserializeAuthConfig_discriminators
        [of "Some (JObject [(''username'', JNumber 5)])" "[]" Map.empty names]
      deserializeAuthConfig_discriminators [of None "[]" Map.empty names]
    by (simp add: u1 u2 u3 u4 u5 u6 c1_def field_def)
qed

text \<open>
  C1 as the specification words it fails: the unrecognized discriminator \<open>"oauth2"\<close>
  deserializes to an error, not to \<open>NoAuth\<close>.
\<close>

theorem deserializeAuthConfig_unknown_counterexample:
  "deserializeAuthConfig ''oauth2'' (Some (JObject [])) = Inl (UnknownAuthType ''oauth2'') \<and>
   deserializeAuthConfig ''oauth2'' (Some (JObject [])) \<noteq> Inr NoAuth"
  by (simp add: deserializeAuthConfig_def)

subsection \<open>Validation of BasicAuth\<close>

text \<open>
  C2, as the code has it. \<open>BasicAuth.Validate\<close> succeeds exactly when the username is
  non-blank and the password is non-empty: the username is trimmed before the test, the
  password is compared with \<open>""\<close> as it is. A blank username is reported as the missing
  username whatever the password; an empty password is reported as the missing password
  when the username is non-blank.
\<close>

theorem BasicAuth_Validate_nonblank_user_nonempty_password:
  "(BasicAuth_Validate username password = None \<longleftrightarrow>
      TrimSpace username \<noteq> [] \<and> password \<noteq> []) \<and>
   (TrimSpace username = [] \<longrightarrow> BasicAuth_Validate username password = Some ErrMissingUsername) \<and>
   (TrimSpace username \<noteq> [] \<and> password = [] \<longrightarrow>
      BasicAuth_Validate username password = Some ErrMissingPassword)"
  by (simp add: BasicAuth_Validate_def)

text \<open>The theorem at valid credentials, at a blank username and at an empty password.\<close>

theorem BasicAuth_Validate_witness:
  "BasicAuth_Validate ''user'' ''pass'' = None \<and>
   BasicAuth_Validate ''   '' [] = Some ErrMissingUsername \<and>
   BasicAuth_Validate ''user'' [] = Some ErrMissingPassword"
proof -
  have u: "TrimSpace ''user'' \<noteq> []" by code_simp
  have b: "TrimSpace ''   '' = []" by code_simp
  show ?thesis
    using BasicAuth_Validate_nonblank_user_nonempty_password [of "''user''" "''pass''"]
      BasicAuth_Validate_nonblank_user_nonempty_password [of "''   ''" "[]"]
      BasicAuth_Validate_nonblank_user_nonempty_password [of "''user''" "[]"]
      u b
    by simp
qed

text \<open>
  C2 as the specification words it fails: the password of one space is blank, and the
  credentials validate.
\<close>

theorem BasicAuth_Validate_blank_password_counterexample:
  "TrimSpace '' '' = [] \<and> BasicAuth_Validate ''user'' '' '' = None \<and>
   \<not> (BasicAuth_Validate ''user'' '' '' = None \<longleftrightarrow>
        TrimSpace ''user'' \<noteq> [] \<and> TrimSpace '' '' \<noteq> [])"
  by code_simp

subsection \<open>Validation of a request\<close>

text \<open>
  C3. \<open>Validate\<close> returns the error of the first failing check in the order method,
  URL, header names, query-parameter names, auth strategy (the last only when a
  strategy is present); it returns no error exactly when all five checks pass; and it
  leaves the request as it was.
\<close>

theorem Validate_first_failing_check:
  "fst (Validate parse r) =
     firstError [ValidateMethod r, ValidateURL parse r, ValidateHeaders r,
                 ValidateQueryParams r, authCheck r] \<and>
   (fst (Validate parse r) = None \<longleftrightarrow>
      ValidateMethod r = None \<and> ValidateURL parse r = None \<and> ValidateHeaders r = None \<and>
      ValidateQueryParams r = None \<and> authCheck r = None) \<and>
   snd (Validate parse r) = r"
  by (simp add: Validate_def authCheck_def split: option.splits)

text \<open>
  The theorem at a request that fails every check (the method's error is reported), at
  the same request with a valid method (the URL's error is reported) and at a request
  that passes.
\<close>

theorem Validate_first_failing_check_witness:
  "fst (Validate exampleParse brokenRequest) = Some ErrInvalidMethod \<and>
   fst (Validate exampleParse (brokenRequest\<lparr>Method := ''get''\<rparr>)) = Some ErrInvalidURL \<and>
   fst (Validate exampleParse exampleRequest) = None \<and>
   snd (Validate exampleParse brokenRequest) = brokenRequest"
proof -
  have m: "ValidateMethod brokenRequest = Some ErrInvalidMethod" by code_simp
  have m': "ValidateMethod (brokenRequest\<lparr>Method := ''get''\<rparr>) = None" by code_simp
  have u': "ValidateURL exampleParse (brokenRequest\<lparr>Method := ''get''\<rparr>) = Some ErrInvalidURL"
    by code_simp
  have ok: "ValidateMethod exampleRequest = None" "ValidateURL exampleParse exampleRequest = None"
    "ValidateHeaders exampleRequest = None" "ValidateQueryParams exampleRequest = None"
    "authCheck exampleRequest = None"
    by code_simp+
  show ?thesis
    using Validate_first_failing_check [of exampleParse brokenRequest]
      Validate_first_failing_check [of exampleParse "brokenRequest\<lparr>Method := ''get''\<rparr>"]
      Validate_first_failing_check [of exampleParse exampleRequest]
    by (simp add: m m' u' ok)
qed

subsection \<open>Applying a strategy that does not validate\<close>

text \<open>
  C4. For each of the four variants, when the variant's validation fails, \<open>Apply\<close>
  returns that validation error and the wire request is left exactly as it was: no
  header and no query parameter is set.
\<close>

theorem AuthConfig_Apply_invalid_unchanged:
  "AuthConfig_Validate auth = Some err \<Longrightarrow> AuthConfig_Apply auth req = (Some err, req)"
  by (cases auth)
     (simp_all add: NoAuth_Validate_def BasicAuth_Apply_def BearerAuth_Apply_def
        APIKeyAuth_Apply_def)

text \<open>
  The theorem at a BasicAuth with no username, a BearerAuth with a blank token and an
  APIKeyAuth with a location that is neither header nor query.
\<close>

theorem AuthConfig_Apply_invalid_unchanged_witness:
  "AuthConfig_Apply (BasicAuth [] ''pass'') exampleWire = (Some ErrMissingUsername, exampleWire) \<and>
   AuthConfig_Apply (BearerAuth ''  '') exampleWire = (Some ErrMissingToken, exampleWire) \<and>
   AuthConfig_Apply (APIKeyAuth ''api_key'' ''secret'' ''cookie'') exampleWire
     = (Some ErrInvalidAPIKeyLocation, exampleWire)"
proof -
  have a: "AuthConfig_Validate (BasicAuth [] ''pass'') = Some ErrMissingUsername" by code_simp
  have b: "AuthConfig_Validate (BearerAuth ''  '') = Some ErrMissingToken" by code_simp
  have c: "AuthConfig_Validate (APIKeyAuth ''api_key'' ''secret'' ''cookie'')
      = Some ErrInvalidAPIKeyLocation" by code_simp
  show ?thesis
    using AuthConfig_Apply_invalid_unchanged [OF a, of exampleWire]
      AuthConfig_Apply_invalid_unchanged [OF b, of exampleWire]
      AuthConfig_Apply_invalid_unchanged [OF c, of exampleWire]
    by simp
qed

subsection \<open>The body of the wire request\<close>

lemma setHeaders_frame:
  "reqBody (setHeaders hs w) = reqBody w \<and> reqContentLength (setHeaders hs w) = reqContentLength w
   \<and> reqMethod (setHeaders hs w) = reqMethod w \<and> reqURL (setHeaders hs w) = reqURL w"
  by (induction hs w rule: setHeaders.induct) simp_all

lemma supported_validMethod: "m \<in> set SupportedMethods \<Longrightarrow> validMethod m"
proof -
  have "list_all validMethod SupportedMethods" by code_simp
  then show "m \<in> set SupportedMethods \<Longrightarrow> validMethod m"
    by (simp add: list_all_iff)
qed

lemma ValidateMethod_validMethod:
  "ValidateMethod req = None \<Longrightarrow> validMethod (ToUpper (Method req)) \<and> ToUpper (Method req) \<noteq> []"
  using supported_validMethod [of "ToUpper (Method req)"]
  by (auto simp: ValidateMethod_def Let_def validMethod_def split: if_splits)

lemma NewRequestWithContext_body:
  "NewRequestWithContext ctx m u body = Some w \<Longrightarrow>
     reqBody w = (case body of None \<Rightarrow> None | Some b \<Rightarrow> if b = [] then None else Some b)"
  by (auto simp: NewRequestWithContext_def Let_def split: if_splits)

text \<open>
  C5. A wire request that \<open>buildHTTPRequest\<close> returns carries a body exactly when the
  request's method, in upper case, is POST, PUT or PATCH and the request's body text is
  not empty; the body is then the request's body text and the content length is its
  length in bytes. A wire request is returned whenever the URL parses, the context is
  not nil and the method passes \<open>ValidateMethod\<close>.
\<close>

theorem buildHTTPRequest_body:
  "(buildHTTPRequest parse ctx req = Inr httpReq \<longrightarrow>
      (reqBody httpReq \<noteq> None \<longleftrightarrow>
         ToUpper (Method req) \<in> set [''POST'', ''PUT'', ''PATCH''] \<and> Request.Body req \<noteq> []) \<and>
      (reqBody httpReq \<noteq> None \<longrightarrow>
         reqBody httpReq = Some (Request.Body req) \<and>
         reqContentLength httpReq = int (length (Request.Body req)))) \<and>
   (parse (URL req) \<noteq> None \<and> ctx \<noteq> None \<and> ValidateMethod req = None \<longrightarrow>
      (\<exists>w. buildHTTPRequest parse ctx req = Inr w))"
proof -
  have allowed: "IsBodyAllowed req \<longleftrightarrow> ToUpper (Method req) \<in> set [''POST'', ''PUT'', ''PATCH'']"
    by (simp add: IsBodyAllowed_def Let_def MethodPost_def MethodPut_def MethodPatch_def)
  have first: "buildHTTPRequest parse ctx req = Inr httpReq \<longrightarrow>
      (reqBody httpReq \<noteq> None \<longleftrightarrow>
         ToUpper (Method req) \<in> set [''POST'', ''PUT'', ''PATCH''] \<and> Request.Body req \<noteq> []) \<and>
      (reqBody httpReq \<noteq> None \<longrightarrow>
         reqBody httpReq = Some (Request.Body req) \<and>
         reqContentLength httpReq = int (length (Request.Body req)))"
  proof
    assume built: "buildHTTPRequest parse ctx req = Inr httpReq"
    then obtain requestURL where u: "buildURL parse req = Inr requestURL"
      by (auto simp: buildHTTPRequest_def split: sum.splits)
    define bodyReader where
      "bodyReader = (if Request.Body req \<noteq> [] \<and> IsBodyAllowed req then Some (Request.Body req) else None)"
    from built u obtain w where
      w: "NewRequestWithContext ctx (ToUpper (Method req)) requestURL bodyReader = Some w"
      by (auto simp: buildHTTPRequest_def bodyReader_def Let_def split: option.splits)
    from built u w have res: "httpReq =
        (if Request.Body req \<noteq> [] \<and> IsBodyAllowed req
         then (setHeaders (Request.Headers req) w)\<lparr>reqContentLength := int (length (Request.Body req))\<rparr>
         else setHeaders (Request.Headers req) w)"
      by (simp add: buildHTTPRequest_def bodyReader_def Let_def)
    have wb: "reqBody w = bodyReader"
      using NewRequestWithContext_body [OF w] by (simp add: bodyReader_def)
    have hb: "reqBody httpReq = bodyReader"
      using res wb setHeaders_frame [of "Request.Headers req" w] by (simp split: if_splits)
    show "(reqBody httpReq \<noteq> None \<longleftrightarrow>
         ToUpper (Method req) \<in> set [''POST'', ''PUT'', ''PATCH''] \<and> Request.Body req \<noteq> []) \<and>
      (reqBody httpReq \<noteq> None \<longrightarrow>
         reqBody httpReq = Some (Request.Body req) \<and>
         reqContentLength httpReq = int (length (Request.Body req)))"
      using hb res allowed by (auto simp: bodyReader_def)
  qed
  have second: "parse (URL req) \<noteq> None \<and> ctx \<noteq> None \<and> ValidateMethod req = None \<longrightarrow>
      (\<exists>w. buildHTTPRequest parse ctx req = Inr w)"
  proof
    assume h: "parse (URL req) \<noteq> None \<and> ctx \<noteq> None \<and> ValidateMethod req = None"
    then obtain y where y: "parse (URL req) = Some y" by auto
    have "\<exists>requestURL. buildURL parse req = Inr requestURL"
      by (simp add: buildURL_def Let_def y)
    then obtain requestURL where u: "buildURL parse req = Inr requestURL" ..
    from h have vm: "validMethod (ToUpper (Method req))" and ne: "ToUpper (Method req) \<noteq> []"
      using ValidateMethod_validMethod [of req] by auto
    from h vm ne have "\<exists>w. NewRequestWithContext ctx (ToUpper (Method req)) requestURL
        (if Request.Body req \<noteq> [] \<and> IsBodyAllowed req then Some (Request.Body req) else None) = Some w"
      by (simp add: NewRequestWithContext_def)
    then show "\<exists>w. buildHTTPRequest parse ctx req = Inr w"
      using u by (auto simp: buildHTTPRequest_def Let_def)
  qed
  from first second show ?thesis by blast
qed

text \<open>
  The theorem at a request with method \<open>post\<close> and body \<open>hello\<close> (the body is attached,
  the content length is 5) and at the same request with method GET (no body).
\<close>

theorem buildHTTPRequest_body_witness:
  "(\<exists>w. buildHTTPRequest exampleParse (Some ()) exampleRequest = Inr w \<and>
        reqBody w = Some ''hello'' \<and> reqContentLength w = 5) \<and>
   (\<exists>w. buildHTTPRequest exampleParse (Some ()) (exampleRequest\<lparr>Method := ''GET''\<rparr>) = Inr w \<and>
        reqBody w = None)"
proof -
  have p: "exampleParse (URL exampleRequest) \<noteq> None" by code_simp
  have m: "ValidateMethod exampleRequest = None" by code_simp
  have up: "ToUpper (Method exampleRequest) = ''POST''" by code_simp
  have b: "Request.Body exampleRequest = ''hello''" by (simp add: exampleRequest_def)
  have "\<exists>w. buildHTTPRequest exampleParse (Some ()) exampleRequest = Inr w"
    using buildHTTPRequest_body [of exampleParse "Some ()" exampleRequest exampleWire] p m
    by simp
  then obtain w where w: "buildHTTPRequest exampleParse (Some ()) exampleRequest = Inr w" ..
  have one: "reqBody w = Some ''hello'' \<and> reqContentLength w = 5"
    using buildHTTPRequest_body [of exampleParse "Some ()" exampleRequest w] w up b by simp
  define g where "g = exampleRequest\<lparr>Method := ''GET''\<rparr>"
  have p': "exampleParse (URL g) \<noteq> None" unfolding g_def by code_simp
  have m': "ValidateMethod g = None" unfolding g_def by code_simp
  have up': "ToUpper (Method g) = ''GET''" unfolding g_def by code_simp
  have "\<exists>w. buildHTTPRequest exampleParse (Some ()) g = Inr w"
    using buildHTTPRequest_body [of exampleParse "Some ()" g exampleWire] p' m' by simp
  then obtain w' where w': "buildHTTPRequest exampleParse (Some ()) g = Inr w'" ..
  have two: "reqBody w' = None"
    using buildHTTPRequest_body [of exampleParse "Some ()" g w'] w' up' by simp
  from w one w' two show ?thesis unfolding g_def by blast
qed

subsection \<open>Merging the query parameters into the URL\<close>

text \<open>
  The library's query encoding loses nothing on what it writes itself: unescaping an
  escaped string gives the string back, and parsing what \<open>Encode\<close> writes gives the
  values back.
\<close>

lemma hex_digit: "d < 16 \<Longrightarrow> ishex (upperhex ! d) \<and> unhex (upperhex ! d) = d
    \<and> upperhex ! d \<noteq> CHR ''&'' \<and> upperhex ! d \<noteq> CHR ''='' \<and> upperhex ! d \<noteq> CHR '';''"
proof -
  have "list_all (\<lambda>d. ishex (upperhex ! d) \<and> unhex (upperhex ! d) = d
    \<and> upperhex ! d \<noteq> CHR ''&'' \<and> upperhex ! d \<noteq> CHR ''='' \<and> upperhex ! d \<noteq> CHR '';'') [0..<16]"
    by code_simp
  then show "d < 16 \<Longrightarrow> ishex (upperhex ! d) \<and> unhex (upperhex ! d) = d
    \<and> upperhex ! d \<noteq> CHR ''&'' \<and> upperhex ! d \<noteq> CHR ''='' \<and> upperhex ! d \<noteq> CHR '';''"
    by (simp add: list_all_iff)
qed

lemma unreserved: "\<not> shouldEscape c \<Longrightarrow>
    c \<noteq> CHR ''%'' \<and> c \<noteq> CHR ''+'' \<and> c \<noteq> CHR ''&'' \<and> c \<noteq> CHR ''='' \<and> c \<noteq> CHR '';''"
  by (auto simp: shouldEscape_def isLower_def isUpper_def isDigit_def)

lemma QueryUnescape_QueryEscape: "QueryUnescape (QueryEscape s) = Some s"
proof (induction s)
  case Nil
  then show ?case by simp
next
  case (Cons c s)
  have d: "(of_char c :: nat) div 16 < 16" "(of_char c :: nat) mod 16 < 16"
    using nat_of_char_less_256 [of c] by (simp_all add: less_mult_imp_div_less)
  have rebuild: "char_of ((of_char c :: nat) div 16 * 16 + (of_char c :: nat) mod 16) = c"
    by simp
  show ?case
  proof (cases "shouldEscape c")
    case False
    then show ?thesis using Cons unreserved [of c] by simp
  next
    case True
    then show ?thesis
      using Cons hex_digit [OF d(1)] hex_digit [OF d(2)] rebuild by simp
  qed
qed

lemma QueryEscape_chars:
  "c \<in> set (QueryEscape s) \<Longrightarrow> c \<noteq> CHR ''&'' \<and> c \<noteq> CHR ''='' \<and> c \<noteq> CHR '';''"
proof (induction s)
  case Nil
  then show ?case by simp
next
  case (Cons a s)
  have d: "(of_char a :: nat) div 16 < 16" "(of_char a :: nat) mod 16 < 16"
    using nat_of_char_less_256 [of a] by (simp_all add: less_mult_imp_div_less)
  show ?case
    using Cons unreserved [of a] hex_digit [OF d(1)] hex_digit [OF d(2)]
    by (auto split: if_splits)
qed

lemma seg_chars: "CHR ''&'' \<notin> set (seg p)" "CHR '';'' \<notin> set (seg p)" "seg p \<noteq> []"
  using QueryEscape_chars [of _ "fst p"] QueryEscape_chars [of _ "snd p"]
  by (auto simp: seg_def)

lemma parsePair_seg: "parsePair m (seg p) = addPair m p"
proof -
  have k: "\<And>c. c \<in> set (QueryEscape (fst p)) \<Longrightarrow> c \<noteq> CHR ''=''"
    using QueryEscape_chars by blast
  have tw: "takeWhile (\<lambda>c. c \<noteq> CHR ''='') (seg p) = QueryEscape (fst p)"
    using k by (simp add: seg_def takeWhile_append2)
  have dw: "drop 1 (dropWhile (\<lambda>c. c \<noteq> CHR ''='') (seg p)) = QueryEscape (snd p)"
    using k by (simp add: seg_def dropWhile_append2)
  show ?thesis
    unfolding parsePair_def Let_def tw dw
    using seg_chars [of p] by (simp add: QueryUnescape_QueryEscape addPair_def)
qed

lemma parseQuery_step:
  "CHR ''&'' \<notin> set s \<Longrightarrow> parseQuery m (s @ CHR ''&'' # rest) = parseQuery (parsePair m s) rest"
proof -
  assume a: "CHR ''&'' \<notin> set s"
  then have p: "\<And>c. c \<in> set s \<Longrightarrow> c \<noteq> CHR ''&''" by auto
  have tw: "takeWhile (\<lambda>c. c \<noteq> CHR ''&'') (s @ CHR ''&'' # rest) = s"
    using p by (simp add: takeWhile_append2)
  have dw: "drop 1 (dropWhile (\<lambda>c. c \<noteq> CHR ''&'') (s @ CHR ''&'' # rest)) = rest"
    using p by (simp add: dropWhile_append2)
  show ?thesis
    by (subst parseQuery.simps) (simp only: tw dw, simp)
qed

lemma parseQuery_last:
  "CHR ''&'' \<notin> set s \<Longrightarrow> s \<noteq> [] \<Longrightarrow> parseQuery m s = parsePair m s"
proof -
  assume a: "CHR ''&'' \<notin> set s" and ne: "s \<noteq> []"
  then have p: "\<And>c. c \<in> set s \<Longrightarrow> c \<noteq> CHR ''&''" by auto
  have tw: "takeWhile (\<lambda>c. c \<noteq> CHR ''&'') s = s" using p by simp
  have dn: "dropWhile (\<lambda>c. c \<noteq> CHR ''&'') s = []" using p by (simp add: dropWhile_eq_Nil_conv)
  have dw: "drop 1 (dropWhile (\<lambda>c. c \<noteq> CHR ''&'') s) = []" unfolding dn by simp
  have e: "\<And>m'. parseQuery m' [] = m'" by (subst parseQuery.simps) simp
  show ?thesis
    by (subst parseQuery.simps) (simp only: tw dw e ne if_False)
qed

lemma parseQuery_chain:
  "parseQuery m (seg p @ concat (map (\<lambda>t. CHR ''&'' # t) (map seg ps))) = foldl addPair m (p # ps)"
proof (induction ps arbitrary: p m)
  case Nil
  then show ?case using parseQuery_last [OF seg_chars(1) seg_chars(3)] parsePair_seg by simp
next
  case (Cons q qs)
  have "parseQuery m (seg p @ concat (map (\<lambda>t. CHR ''&'' # t) (map seg (q # qs))))
      = parseQuery m (seg p @ CHR ''&'' # (seg q @ concat (map (\<lambda>t. CHR ''&'' # t) (map seg qs))))"
    by simp
  also have "\<dots> = parseQuery (parsePair m (seg p))
      (seg q @ concat (map (\<lambda>t. CHR ''&'' # t) (map seg qs)))"
    by (rule parseQuery_step [OF seg_chars(1)])
  also have "\<dots> = foldl addPair (addPair m p) (q # qs)"
    by (simp only: parsePair_seg Cons.IH)
  finally show ?case by simp
qed

lemma joinBuf_nonempty:
  "b \<noteq> [] \<Longrightarrow> joinBuf b ss = b @ concat (map (\<lambda>t. CHR ''&'' # t) ss)"
  by (induction ss arbitrary: b) (simp_all add: joinBuf_def)

lemma joinBuf_append: "joinBuf b (xs @ ys) = joinBuf (joinBuf b xs) ys"
  by (simp add: joinBuf_def)

lemma encodeValues_joinBuf:
  "encodeValues (QueryEscape k) vs buf = joinBuf buf (map (\<lambda>x. seg (k, x)) vs)"
  by (induction vs arbitrary: buf) (simp_all add: joinBuf_def seg_def)

lemma encodeKeys_joinBuf:
  "encodeKeys keys m buf = joinBuf buf (map seg (pairsOf keys m))"
proof (induction keys arbitrary: buf)
  case Nil
  then show ?case by (simp add: pairsOf_def joinBuf_def)
next
  case (Cons k keys)
  have "pairsOf (k # keys) m = map (Pair k) (lookupValues m k) @ pairsOf keys m"
    by (simp add: pairsOf_def)
  then show ?case
    by (simp add: Cons.IH encodeValues_joinBuf joinBuf_append comp_def)
qed

lemma parse_encodeKeys:
  "parseQuery [] (encodeKeys keys m []) = foldl addPair [] (pairsOf keys m)"
proof (cases "pairsOf keys m")
  case Nil
  have "parseQuery [] [] = []" by (subst parseQuery.simps) simp
  then show ?thesis by (simp add: encodeKeys_joinBuf Nil joinBuf_def)
next
  case (Cons p ps)
  have "joinBuf [] (map seg (p # ps)) = joinBuf (seg p) (map seg ps)"
    by (simp add: joinBuf_def)
  also have "\<dots> = seg p @ concat (map (\<lambda>t. CHR ''&'' # t) (map seg ps))"
    by (rule joinBuf_nonempty [OF seg_chars(3)])
  finally show ?thesis
    by (simp only: encodeKeys_joinBuf Cons parseQuery_chain)
qed


lemma map_of_mapAssign: "map_of (mapAssign m k v) = (map_of m)(k \<mapsto> v)"
  by (induction m k v rule: mapAssign.induct) auto

lemma keys_mapAssign: "fst ` set (mapAssign m k v) = insert k (fst ` set m)"
  by (induction m k v rule: mapAssign.induct) auto

lemma distinct_mapAssign: "distinct (map fst m) \<Longrightarrow> distinct (map fst (mapAssign m k v))"
proof (induction m k v rule: mapAssign.induct)
  case (1 key val)
  then show ?case by simp
next
  case (2 k v rest key val)
  then show ?case using keys_mapAssign [of rest key val] by auto
qed

lemma values_mapAssign: "snd ` set (mapAssign m k v) \<subseteq> insert v (snd ` set m)"
  by (induction m k v rule: mapAssign.induct) auto

lemma wellformed_mapAssign: "wellformed m \<Longrightarrow> v \<noteq> [] \<Longrightarrow> wellformed (mapAssign m k v)"
  using distinct_mapAssign [of m k v] values_mapAssign [of m k v]
  by (auto simp: wellformed_def)

lemma lookupValues_addPair:
  "lookupValues (addPair m p) k = (if k = fst p then lookupValues m k @ [snd p] else lookupValues m k)"
  by (simp add: lookupValues_def addPair_def map_of_mapAssign)

lemma filter_no_key: "j \<notin> fst ` set ps \<Longrightarrow> filter (\<lambda>q. fst q = j) ps = []"
  by (auto simp: filter_empty_conv)

lemma map_of_foldl_addPair:
  "map_of (foldl addPair m ps) k =
     (if k \<in> fst ` set ps
      then Some (lookupValues m k @ map snd (filter (\<lambda>p. fst p = k) ps))
      else map_of m k)"
proof (induction ps arbitrary: m)
  case Nil
  then show ?case by simp
next
  case (Cons p ps)
  show ?case
  proof (cases "k \<in> fst ` set ps")
    case True
    then show ?thesis
      by (simp add: Cons.IH lookupValues_addPair)
  next
    case False
    have "map_of (foldl addPair m (p # ps)) k = map_of (addPair m p) k"
      using False by (simp add: Cons.IH)
    also have "\<dots> = (if k = fst p then Some (lookupValues m k @ [snd p]) else map_of m k)"
      by (simp add: addPair_def map_of_mapAssign)
    finally show ?thesis
      using False filter_no_key [OF False] by auto
  qed
qed

lemma filter_same_key: "map snd (filter (\<lambda>p. fst p = a) (map (Pair a) xs)) = xs"
  by (induction xs) simp_all

lemma filter_other_key: "k \<noteq> a \<Longrightarrow> map snd (filter (\<lambda>p. fst p = k) (map (Pair a) xs)) = []"
  by (induction xs) simp_all

lemma filter_pairsOf:
  "distinct keys \<Longrightarrow>
     map snd (filter (\<lambda>p. fst p = k) (pairsOf keys m)) = (if k \<in> set keys then lookupValues m k else [])"
proof (induction keys)
  case Nil
  then show ?case by (simp add: pairsOf_def)
next
  case (Cons a keys)
  have step: "map snd (filter (\<lambda>p. fst p = k) (pairsOf (a # keys) m)) =
      map snd (filter (\<lambda>p. fst p = k) (map (Pair a) (lookupValues m a)))
      @ map snd (filter (\<lambda>p. fst p = k) (pairsOf keys m))"
    by (simp add: pairsOf_def)
  from Cons.prems have d: "distinct keys" and na: "a \<notin> set keys" by simp_all
  show ?case
  proof (cases "k = a")
    case True
    then show ?thesis
      unfolding step using Cons.IH [OF d] na
      by (simp only: filter_same_key) simp
  next
    case False
    then show ?thesis
      unfolding step using Cons.IH [OF d]
      by (simp only: filter_other_key [OF False]) simp
  qed
qed

lemma set_pairsOf:
  "set (pairsOf keys m) = {(k, x). k \<in> set keys \<and> x \<in> set (lookupValues m k)}"
  by (auto simp: pairsOf_def)

lemma keys_pairsOf:
  "k \<in> fst ` set (pairsOf keys m) \<longleftrightarrow> k \<in> set keys \<and> lookupValues m k \<noteq> []"
proof
  assume "k \<in> fst ` set (pairsOf keys m)"
  then show "k \<in> set keys \<and> lookupValues m k \<noteq> []"
    unfolding set_pairsOf by auto
next
  assume a: "k \<in> set keys \<and> lookupValues m k \<noteq> []"
  then obtain x xs where "lookupValues m k = x # xs" by (auto simp: neq_Nil_conv)
  then have "(k, x) \<in> set (pairsOf keys m)" using a unfolding set_pairsOf by simp
  then show "k \<in> fst ` set (pairsOf keys m)" by force
qed

lemma parseQuery_empty: "parseQuery m [] = m"
  by (subst parseQuery.simps) simp

lemma Query_Encode:
  assumes "wellformed m"
  shows "map_of (parseQuery [] (Encode m)) k = map_of m k"
proof (cases "m = []")
  case True
  then show ?thesis by (simp add: Encode_def parseQuery_empty)
next
  case False
  define keys where "keys = sort (map fst m)"
  have d: "distinct keys" using assms by (simp add: keys_def wellformed_def)
  have ks: "set keys = fst ` set m" by (simp add: keys_def)
  have enc: "Encode m = encodeKeys keys m []" using False by (simp add: Encode_def keys_def)
  have look: "k \<in> fst ` set m \<Longrightarrow> map_of m k = Some (lookupValues m k) \<and> lookupValues m k \<noteq> []"
  proof -
    assume "k \<in> fst ` set m"
    then obtain vs where vs: "map_of m k = Some vs"
      by (metis domD dom_map_of_conv_image_fst)
    then have "(k, vs) \<in> set m" by (rule map_of_SomeD)
    then have "vs \<noteq> []" using assms by (force simp: wellformed_def)
    then show ?thesis using vs by (simp add: lookupValues_def)
  qed
  have absent: "k \<notin> fst ` set m \<Longrightarrow> map_of m k = None"
    by (simp add: map_of_eq_None_iff)
  show ?thesis
    unfolding enc parse_encodeKeys map_of_foldl_addPair keys_pairsOf filter_pairsOf [OF d] ks
    using look absent by (auto simp: lookupValues_def)
qed

lemma wellformed_parsePair: "wellformed m \<Longrightarrow> wellformed (parsePair m s)"
  by (auto simp: parsePair_def Let_def wellformed_mapAssign split: option.splits)

lemma wellformed_parseQuery: "wellformed m \<Longrightarrow> wellformed (parseQuery m q)"
proof (induction m q rule: parseQuery.induct)
  case (1 m query)
  show ?case
  proof (cases "query = []")
    case True
    then show ?thesis using "1.prems" by (simp add: parseQuery_empty)
  next
    case False
    then show ?thesis
      using "1.IH" [OF False wellformed_parsePair [OF "1.prems"]]
      by (subst parseQuery.simps) simp
  qed
qed

lemma wellformed_Values_Set: "wellformed m \<Longrightarrow> wellformed (Values_Set m k v)"
  by (simp add: Values_Set_def wellformed_mapAssign)

lemma wellformed_setQueryParams: "wellformed q \<Longrightarrow> wellformed (setQueryParams qs q)"
  by (induction qs q rule: setQueryParams.induct) (simp_all add: wellformed_Values_Set)

lemma setQueryParams_other:
  "key \<notin> fst ` set qs \<Longrightarrow> map_of (setQueryParams qs q) key = map_of q key"
  by (induction qs q rule: setQueryParams.induct)
     (auto simp: Values_Set_def map_of_mapAssign)

lemma setQueryParams_member:
  "distinct (map fst qs) \<Longrightarrow> (key, val) \<in> set qs \<Longrightarrow>
     map_of (setQueryParams qs q) key = Some [val]"
proof (induction qs q rule: setQueryParams.induct)
  case (1 query)
  then show ?case by simp
next
  case (2 k v rest query)
  show ?case
  proof (cases "(key, val) = (k, v)")
    case True
    with "2.prems" have "key \<notin> fst ` set rest" by auto
    then show ?thesis
      using True setQueryParams_other [of key rest "Values_Set query k v"]
      by (simp add: Values_Set_def map_of_mapAssign)
  next
    case False
    with "2.prems" have "(key, val) \<in> set rest" and "distinct (map fst rest)" by auto
    then show ?thesis using "2.IH" by simp
  qed
qed

lemma wellformed_Query: "wellformed (Query u)"
proof -
  have "wellformed []" by (simp add: wellformed_def)
  then show ?thesis unfolding Query_def by (rule wellformed_parseQuery)
qed

lemma Query_Encode_URL:
  "wellformed m \<Longrightarrow> map_of (Query (u\<lparr>RawQuery := Encode m\<rparr>)) key = map_of m key"
  by (simp add: Query_def Query_Encode)

text \<open>
  C6, as the code has it. When the URL parses, \<open>buildURL\<close> returns a URL with the path,
  scheme, host and fragment of the parsed URL. Read with \<open>URL.Query\<close>, its query holds
  for every key of the request's query-parameter map (a Go map, so its keys are
  distinct) exactly the request-supplied value, and for every other key the values
  that \<open>URL.Query\<close> yields for the parsed URL. With no request parameter the raw query
  is the parsed URL's own; otherwise it is the encoding of the merged values, so a pair
  of the URL that \<open>URL.Query\<close> does not yield is not in it.
\<close>

theorem buildURL_merges_query:
  assumes "parse (URL req) = Some parsedURL" and "distinct (map fst (QueryParams req))"
  shows "\<exists>u. buildURL parse req = Inr u \<and>
           Path u = Path parsedURL \<and> Scheme u = Scheme parsedURL \<and> Host u = Host parsedURL \<and>
           Fragment u = Fragment parsedURL \<and>
           (\<forall>key val. (key, val) \<in> set (QueryParams req) \<longrightarrow>
              map_of (Query u) key = Some [val]) \<and>
           (\<forall>key. key \<notin> fst ` set (QueryParams req) \<longrightarrow>
              map_of (Query u) key = map_of (Query parsedURL) key) \<and>
           (QueryParams req = [] \<longrightarrow> RawQuery u = RawQuery parsedURL) \<and>
           (QueryParams req \<noteq> [] \<longrightarrow>
              RawQuery u = Encode (setQueryParams (QueryParams req) (Query parsedURL)))"
proof (cases "QueryParams req = []")
  case True
  then show ?thesis using assms by (simp add: buildURL_def)
next
  case False
  have w: "wellformed (setQueryParams (QueryParams req) (Query parsedURL))"
    by (rule wellformed_setQueryParams [OF wellformed_Query])
  show ?thesis
    using False assms(1) setQueryParams_member [OF assms(2)] setQueryParams_other
    by (simp add: buildURL_def Let_def Query_Encode_URL [OF w])
qed

text \<open>
  The theorem at a URL with the query \<open>existing=value&page=1\<close> and the request parameters
  \<open>existing=new\<close>, \<open>api_key=secret\<close>.
\<close>

theorem buildURL_merges_query_witness:
  "\<exists>u. buildURL exampleParse mergeRequest = Inr u \<and> Path u = ''/path'' \<and>
       map_of (Query u) ''existing'' = Some [''new''] \<and>
       map_of (Query u) ''api_key'' = Some [''secret''] \<and>
       map_of (Query u) ''page'' = Some [''1''] \<and>
       RawQuery u = ''api_key=secret&existing=new&page=1''"
proof -
  define parsedURL where
    "parsedURL = \<lparr>Scheme = ''http'', Host = ''x'', Path = ''/path'',
        RawQuery = ''existing=value&page=1'', Fragment = []\<rparr>"
  have p: "exampleParse (URL mergeRequest) = Some parsedURL"
    by (simp add: exampleParse_def mergeRequest_def exampleRequest_def parsedURL_def)
  have d: "distinct (map fst (QueryParams mergeRequest))"
    by (simp add: mergeRequest_def exampleRequest_def)
  have qp: "QueryParams mergeRequest = [(''existing'', ''new''), (''api_key'', ''secret'')]"
    by (simp add: mergeRequest_def exampleRequest_def)
  have page: "map_of (Query parsedURL) ''page'' = Some [''1'']"
    unfolding parsedURL_def by code_simp
  have enc: "Encode (setQueryParams [(''existing'', ''new''), (''api_key'', ''secret'')]
      (Query parsedURL)) = ''api_key=secret&existing=new&page=1''"
    unfolding parsedURL_def by code_simp
  obtain u where u: "buildURL exampleParse mergeRequest = Inr u"
    and path: "Path u = Path parsedURL"
    and mine: "\<forall>key val. (key, val) \<in> set (QueryParams mergeRequest) \<longrightarrow>
        map_of (Query u) key = Some [val]"
    and theirs: "\<forall>key. key \<notin> fst ` set (QueryParams mergeRequest) \<longrightarrow>
        map_of (Query u) key = map_of (Query parsedURL) key"
    and raw: "QueryParams mergeRequest \<noteq> [] \<longrightarrow>
        RawQuery u = Encode (setQueryParams (QueryParams mergeRequest) (Query parsedURL))"
    using buildURL_merges_query [of exampleParse mergeRequest parsedURL, OF p d] by blast
  have a: "map_of (Query u) ''existing'' = Some [''new'']"
    using mine by (simp add: qp)
  have b: "map_of (Query u) ''api_key'' = Some [''secret'']"
    using mine by (simp add: qp)
  have c: "map_of (Query u) ''page'' = Some [''1'']"
    using theirs page by (simp add: qp)
  have r: "RawQuery u = ''api_key=secret&existing=new&page=1''"
    using raw enc by (simp add: qp)
  from u path a b c r show ?thesis by (auto simp: parsedURL_def)
qed

text \<open>
  C6 for every key of the URL's query string fails: in \<open>q=50%&page=2\<close> the key \<open>q\<close> is
  in the URL only, its value does not unescape, and with one request parameter the
  query that \<open>buildURL\<close> returns has no \<open>q\<close>. With no request parameter the pair stays.
\<close>

theorem buildURL_drops_malformed_pair_counterexample:
  "exampleParse (URL malformedRequest) =
     Some \<lparr>Scheme = ''http'', Host = ''x'', Path = ''/search'',
            RawQuery = ''q=50%&page=2'', Fragment = []\<rparr> \<and>
   map_of (QueryParams malformedRequest) ''q'' = None \<and>
   buildURL exampleParse malformedRequest =
     Inr \<lparr>Scheme = ''http'', Host = ''x'', Path = ''/search'',
           RawQuery = ''k=v&page=2'', Fragment = []\<rparr> \<and>
   buildURL exampleParse (malformedRequest\<lparr>QueryParams := []\<rparr>) =
     Inr \<lparr>Scheme = ''http'', Host = ''x'', Path = ''/search'',
           RawQuery = ''q=50%&page=2'', Fragment = []\<rparr>"
  by code_simp

subsection \<open>The content length of a response\<close>

text \<open>
  C7. When the body is read, \<open>buildDomainResponse\<close> returns a response with that body
  whose \<open>ContentLength\<close> is the byte length of the body when the transport reported
  \<open>-1\<close>, and the value the transport reported otherwise.
\<close>

theorem buildDomainResponse_ContentLength:
  "respBody httpResp = Some bodyBytes \<longrightarrow>
     (\<exists>resp. buildDomainResponse httpResp duration timestamp requestID = Inr resp \<and>
        Response.Body resp = bodyBytes \<and>
        (respContentLength httpResp = - 1 \<longrightarrow> ContentLength resp = int (length bodyBytes)) \<and>
        (respContentLength httpResp \<noteq> - 1 \<longrightarrow> ContentLength resp = respContentLength httpResp))"
  by (simp add: buildDomainResponse_def Let_def)

text \<open>The theorem at a body of 7 bytes, with the reported lengths \<open>-1\<close> and \<open>3\<close>.\<close>

theorem buildDomainResponse_ContentLength_witness:
  "(\<exists>resp. buildDomainResponse (ok200\<lparr>respContentLength := - 1\<rparr>) 12 34 ''1'' = Inr resp \<and>
      Response.Body resp = ''Success'' \<and> ContentLength resp = 7) \<and>
   (\<exists>resp. buildDomainResponse (ok200\<lparr>respContentLength := 3\<rparr>) 12 34 ''1'' = Inr resp \<and>
      Response.Body resp = ''Success'' \<and> ContentLength resp = 3)"
  using buildDomainResponse_ContentLength
      [of "ok200\<lparr>respContentLength := - 1\<rparr>" "''Success''" 12 34 "''1''"]
    buildDomainResponse_ContentLength
      [of "ok200\<lparr>respContentLength := 3\<rparr>" "''Success''" 12 34 "''1''"]
  by (simp add: ok200_def)

subsection \<open>Storing a strategy and reading it back\<close>

text \<open>
  What is read back is the strategy with each string field coerced to valid UTF-8.
\<close>

lemma store_then_deserialize:
  "\<exists>text. storeAuth (Some auth) = Inr (AuthConfig_Type auth, text) \<and>
      deserializeAuthConfig (AuthConfig_Type auth) (Some text) = Inr (coerceFields auth)"
  by (cases auth)
     (simp_all add: storeAuth_def Marshal_def deserializeAuthConfig_def Unmarshal_def
        matchField_def field_def)

text \<open>
  C9, as the code has it. For every strategy of the four variants whose string fields
  are valid UTF-8, storing it as its (discriminator, JSON text) pair and deserializing
  that pair gives the strategy back, variant and fields.
\<close>

theorem auth_roundtrip_valid_utf8:
  "fieldsValidUTF8 auth \<Longrightarrow>
     \<exists>text. storeAuth (Some auth) = Inr (AuthConfig_Type auth, text) \<and>
       deserializeAuthConfig (AuthConfig_Type auth) (Some text) = Inr auth"
proof -
  assume v: "fieldsValidUTF8 auth"
  then have "coerceFields auth = auth"
    by (cases auth) (simp_all add: validUTF8_def)
  then show ?thesis using store_then_deserialize [of auth] by simp
qed

text \<open>The theorem at an APIKeyAuth with ASCII fields.\<close>

theorem auth_roundtrip_valid_utf8_witness:
  "fieldsValidUTF8 (APIKeyAuth ''X-Key'' ''s3cret'' ''header'') \<and>
   (\<exists>text. storeAuth (Some (APIKeyAuth ''X-Key'' ''s3cret'' ''header'')) = Inr (''apikey'', text) \<and>
      deserializeAuthConfig ''apikey'' (Some text) = Inr (APIKeyAuth ''X-Key'' ''s3cret'' ''header''))"
proof -
  have v: "fieldsValidUTF8 (APIKeyAuth ''X-Key'' ''s3cret'' ''header'')" by code_simp
  show ?thesis using v auth_roundtrip_valid_utf8 [OF v] by simp
qed

text \<open>
  C9 for every field value fails: a username of the single byte FF is stored as U+FFFD
  and read back as the bytes EF BF BD.
\<close>

theorem auth_roundtrip_invalid_utf8_counterexample:
  "storeAuth (Some (BasicAuth [CHR 0xFF] ''p'')) =
     Inr (''basic'', JObject [(''password'', JString ''p''),
                               (''username'', JString [CHR 0xEF, CHR 0xBF, CHR 0xBD])]) \<and>
   deserializeAuthConfig ''basic''
     (Some (JObject [(''password'', JString ''p''),
                     (''username'', JString [CHR 0xEF, CHR 0xBF, CHR 0xBD])])) =
     Inr (BasicAuth [CHR 0xEF, CHR 0xBF, CHR 0xBD] ''p'') \<and>
   BasicAuth [CHR 0xEF, CHR 0xBF, CHR 0xBD] ''p'' \<noteq> BasicAuth [CHR 0xFF] ''p''"
proof -
  have a: "toValidUTF8 [CHR 0xFF] = [CHR 0xEF, CHR 0xBF, CHR 0xBD]" by code_simp
  have b: "toValidUTF8 ''p'' = ''p''" by code_simp
  show ?thesis
    by (simp add: storeAuth_def Marshal_def a b deserializeAuthConfig_def Unmarshal_def
          matchField_def field_def)
qed

subsection \<open>Header lookup on a response\<close>

lemma of_char_lowerByte:
  "(of_char (lowerByte c) :: nat) = (if isUpper c then of_char c + 32 else of_char c)"
  by (simp add: lowerByte_def isUpper_def)

lemma lowerByte_eq_iff: "lowerByte x = lowerByte y \<longleftrightarrow> sameLetter x y"
proof -
  have "lowerByte x = lowerByte y \<longleftrightarrow> (of_char (lowerByte x) :: nat) = of_char (lowerByte y)"
    by simp
  also have "\<dots> \<longleftrightarrow> sameLetter x y"
    unfolding of_char_lowerByte sameLetter_def
    using of_char_eq_iff [of x y, where ?'a = nat]
    by (auto simp: isUpper_def simp del: of_char_eq_iff)
  finally show ?thesis .
qed

lemma equalsFoldLoop_step:
  "equalsFoldLoop i a b =
     (if i < length a
      then (if lowerByte (a ! i) \<noteq> lowerByte (b ! i) then False else equalsFoldLoop (i + 1) a b)
      else True)"
proof -
  have n: "(97::nat) - 65 = 32" by simp
  show ?thesis
    by (subst equalsFoldLoop.simps) (simp only: lowerByte_def isUpper_def Let_def n)
qed

lemma equalsFoldLoop_iff:
  "equalsFoldLoop i a b \<longleftrightarrow> (\<forall>j. i \<le> j \<and> j < length a \<longrightarrow> lowerByte (a ! j) = lowerByte (b ! j))"
proof (induction "length a - i" arbitrary: i)
  case 0
  then show ?case by (subst equalsFoldLoop_step) auto
next
  case (Suc n)
  then have lt: "i < length a" and n: "n = length a - (i + 1)" by auto
  have ih: "equalsFoldLoop (i + 1) a b \<longleftrightarrow>
      (\<forall>j. i + 1 \<le> j \<and> j < length a \<longrightarrow> lowerByte (a ! j) = lowerByte (b ! j))"
    by (rule Suc.hyps(1) [OF n])
  have split: "(\<forall>j. i \<le> j \<and> j < length a \<longrightarrow> lowerByte (a ! j) = lowerByte (b ! j)) \<longleftrightarrow>
      lowerByte (a ! i) = lowerByte (b ! i) \<and>
      (\<forall>j. i + 1 \<le> j \<and> j < length a \<longrightarrow> lowerByte (a ! j) = lowerByte (b ! j))"
  proof
    assume h: "\<forall>j. i \<le> j \<and> j < length a \<longrightarrow> lowerByte (a ! j) = lowerByte (b ! j)"
    then show "lowerByte (a ! i) = lowerByte (b ! i) \<and>
      (\<forall>j. i + 1 \<le> j \<and> j < length a \<longrightarrow> lowerByte (a ! j) = lowerByte (b ! j))"
      using lt by auto
  next
    assume h: "lowerByte (a ! i) = lowerByte (b ! i) \<and>
      (\<forall>j. i + 1 \<le> j \<and> j < length a \<longrightarrow> lowerByte (a ! j) = lowerByte (b ! j))"
    show "\<forall>j. i \<le> j \<and> j < length a \<longrightarrow> lowerByte (a ! j) = lowerByte (b ! j)"
    proof (intro allI impI)
      fix j assume "i \<le> j \<and> j < length a"
      then show "lowerByte (a ! j) = lowerByte (b ! j)"
        using h by (cases "j = i") auto
    qed
  qed
  show ?case
    by (subst equalsFoldLoop_step) (simp only: lt if_True ih split, simp)
qed

lemma equalsFold_iff: "equalsFold a b \<longleftrightarrow> list_all2 sameLetter a b"
  by (auto simp: equalsFold_def equalsFoldLoop_iff list_all2_conv_all_nth lowerByte_eq_iff)

text \<open>
  What the second pass of \<open>GetHeader\<close> finds is the value of a key that \<open>equalsFold\<close>
  relates to the name, and it finds none only when the map has no such key.
\<close>

lemma sameLetter_refl: "list_all2 sameLetter name name"
  by (simp add: list_all2_same sameLetter_def)

lemma foldedLookup_Some:
  "foldedLookup order name = Some v \<Longrightarrow>
     \<exists>k. (k, v) \<in> set order \<and> list_all2 sameLetter k name"
  by (induction order name rule: foldedLookup.induct)
     (auto simp: equalsFold_iff split: if_splits)

lemma foldedLookup_None:
  "foldedLookup order name = None \<longleftrightarrow>
     (\<forall>k v. (k, v) \<in> set order \<longrightarrow> \<not> list_all2 sameLetter k name)"
  by (induction order name rule: foldedLookup.induct) (auto simp: equalsFold_iff)

lemma enumerates_map_of:
  "enumerates order m \<Longrightarrow> (k, v) \<in> set m \<Longrightarrow> (k, v') \<in> set m \<Longrightarrow> v = v'"
  using eq_key_imp_eq_value [of order k v v'] by (simp add: enumerates_def)

lemma GetHeader_value_of_folding_key:
  assumes en: "enumerates order (Response.Headers r)"
    and ex: "\<exists>k v. (k, v) \<in> set (Response.Headers r) \<and> list_all2 sameLetter k name"
  shows "\<exists>k. (k, GetHeader order r name) \<in> set (Response.Headers r) \<and> list_all2 sameLetter k name"
proof (cases "map_of (Response.Headers r) name")
  case (Some v)
  then have "(name, v) \<in> set (Response.Headers r)" by (rule map_of_SomeD)
  then show ?thesis using Some sameLetter_refl by (auto simp: GetHeader_def)
next
  case None
  from en have s: "set order = set (Response.Headers r)" by (simp add: enumerates_def)
  from ex s have "foldedLookup order name \<noteq> None" by (auto simp: foldedLookup_None)
  then obtain v where v: "foldedLookup order name = Some v" by auto
  from foldedLookup_Some [OF v] s show ?thesis using None v by (auto simp: GetHeader_def)
qed

lemma GetHeader_no_folding_key:
  assumes en: "enumerates order (Response.Headers r)"
    and no: "\<not> (\<exists>k v. (k, v) \<in> set (Response.Headers r) \<and> list_all2 sameLetter k name)"
  shows "GetHeader order r name = []"
proof -
  from en have s: "set order = set (Response.Headers r)" by (simp add: enumerates_def)
  have "map_of (Response.Headers r) name = None"
  proof (cases "map_of (Response.Headers r) name")
    case (Some v)
    then have "(name, v) \<in> set (Response.Headers r)" by (rule map_of_SomeD)
    then show ?thesis using no sameLetter_refl by blast
  qed simp
  moreover have "foldedLookup order name = None" using no s by (auto simp: foldedLookup_None)
  ultimately show ?thesis by (simp add: GetHeader_def)
qed

lemma GetHeader_order_independent:
  assumes en: "enumerates order (Response.Headers r)"
    and en': "enumerates order' (Response.Headers r)"
    and uniq: "name \<in> fst ` set (Response.Headers r) \<or>
      (\<forall>k v k' v'. (k, v) \<in> set (Response.Headers r) \<and> (k', v') \<in> set (Response.Headers r) \<and>
         list_all2 sameLetter k name \<and> list_all2 sameLetter k' name \<longrightarrow> k = k')"
  shows "GetHeader order r name = GetHeader order' r name"
proof (cases "map_of (Response.Headers r) name")
  case (Some v)
  then show ?thesis by (simp add: GetHeader_def)
next
  case None
  then have "name \<notin> fst ` set (Response.Headers r)" by (simp add: map_of_eq_None_iff)
  with uniq have u: "\<And>k v k' v'. (k, v) \<in> set (Response.Headers r) \<Longrightarrow>
      (k', v') \<in> set (Response.Headers r) \<Longrightarrow> list_all2 sameLetter k name \<Longrightarrow>
      list_all2 sameLetter k' name \<Longrightarrow> k = k'" by blast
  from en have s: "set order = set (Response.Headers r)" by (simp add: enumerates_def)
  from en' have s': "set order' = set (Response.Headers r)" by (simp add: enumerates_def)
  show ?thesis
  proof (cases "foldedLookup order name")
    case None
    then have "foldedLookup order' name = None"
      using s s' by (auto simp: foldedLookup_None)
    then show ?thesis using None \<open>map_of (Response.Headers r) name = None\<close>
      by (simp add: GetHeader_def)
  next
    case (Some v)
    from foldedLookup_Some [OF Some] s obtain k where
      k: "(k, v) \<in> set (Response.Headers r)" "list_all2 sameLetter k name" by auto
    then have "foldedLookup order' name \<noteq> None" using s' by (auto simp: foldedLookup_None)
    then obtain v' where v': "foldedLookup order' name = Some v'" by auto
    from foldedLookup_Some [OF v'] s' obtain k' where
      k': "(k', v') \<in> set (Response.Headers r)" "list_all2 sameLetter k' name" by auto
    have "k = k'" using u k k' by blast
    then have "v = v'" using enumerates_map_of [OF en] k(1) k'(1) by blast
    then show ?thesis using Some v' \<open>map_of (Response.Headers r) name = None\<close>
      by (simp add: GetHeader_def)
  qed
qed

text \<open>
  C10, as the code has it. \<open>order\<close> and \<open>order'\<close> are the orders in which two range loops
  yield the entries of the header map. \<open>HasHeader\<close> holds exactly when the \<open>GetHeader\<close>
  call it makes returns a non-empty string; it agrees with any other \<open>GetHeader\<close> call
  when the name is a key of the map or at most one key folds to the name. A name that
  the map holds with the value \<open>""\<close> is reported absent. \<open>GetHeader\<close> returns the value
  of the key equal to the name when there is one; when some key folds to the name it
  returns the value of a key that folds to the name, and otherwise \<open>""\<close>. A key folds
  to a name exactly when they have the same length and, position by position, equal
  bytes or the two cases of one ASCII letter: no byte outside A-Z and a-z is folded.
\<close>

theorem HasHeader_iff_GetHeader_nonempty:
  assumes "enumerates order (Response.Headers r)" and "enumerates order' (Response.Headers r)"
  shows "(HasHeader order r name \<longleftrightarrow> GetHeader order r name \<noteq> []) \<and>
    (name \<in> fst ` set (Response.Headers r) \<or>
       (\<forall>k v k' v'. (k, v) \<in> set (Response.Headers r) \<and> (k', v') \<in> set (Response.Headers r) \<and>
          list_all2 sameLetter k name \<and> list_all2 sameLetter k' name \<longrightarrow> k = k')
     \<longrightarrow> (HasHeader order r name \<longleftrightarrow> GetHeader order' r name \<noteq> [])) \<and>
    (map_of (Response.Headers r) name = Some [] \<longrightarrow> \<not> HasHeader order r name) \<and>
    (\<forall>v. map_of (Response.Headers r) name = Some v \<longrightarrow> GetHeader order r name = v) \<and>
    ((\<exists>k v. (k, v) \<in> set (Response.Headers r) \<and> list_all2 sameLetter k name) \<longrightarrow>
       (\<exists>k. (k, GetHeader order r name) \<in> set (Response.Headers r) \<and> list_all2 sameLetter k name)) \<and>
    (\<not> (\<exists>k v. (k, v) \<in> set (Response.Headers r) \<and> list_all2 sameLetter k name) \<longrightarrow>
       GetHeader order r name = []) \<and>
    (equalsFold a b \<longleftrightarrow> list_all2 sameLetter a b)"
proof -
  have c1: "HasHeader order r name \<longleftrightarrow> GetHeader order r name \<noteq> []"
    by (simp add: HasHeader_def)
  have c2: "name \<in> fst ` set (Response.Headers r) \<or>
       (\<forall>k v k' v'. (k, v) \<in> set (Response.Headers r) \<and> (k', v') \<in> set (Response.Headers r) \<and>
          list_all2 sameLetter k name \<and> list_all2 sameLetter k' name \<longrightarrow> k = k')
     \<longrightarrow> (HasHeader order r name \<longleftrightarrow> GetHeader order' r name \<noteq> [])"
    using GetHeader_order_independent [OF assms, of name] by (simp add: HasHeader_def)
  have c3: "map_of (Response.Headers r) name = Some [] \<longrightarrow> \<not> HasHeader order r name"
    by (simp add: HasHeader_def GetHeader_def)
  have c4: "\<forall>v. map_of (Response.Headers r) name = Some v \<longrightarrow> GetHeader order r name = v"
    by (simp add: GetHeader_def)
  have c5: "(\<exists>k v. (k, v) \<in> set (Response.Headers r) \<and> list_all2 sameLetter k name) \<longrightarrow>
       (\<exists>k. (k, GetHeader order r name) \<in> set (Response.Headers r) \<and> list_all2 sameLetter k name)"
    using GetHeader_value_of_folding_key [OF assms(1), of name] by blast
  have c6: "\<not> (\<exists>k v. (k, v) \<in> set (Response.Headers r) \<and> list_all2 sameLetter k name) \<longrightarrow>
       GetHeader order r name = []"
    using GetHeader_no_folding_key [OF assms(1), of name] by blast
  have c7: "equalsFold a b \<longleftrightarrow> list_all2 sameLetter a b" by (rule equalsFold_iff)
  show ?thesis
    by (rule conjI [OF c1 conjI [OF c2 conjI [OF c3 conjI [OF c4 conjI [OF c5 conjI [OF c6 c7]]]]]])
qed

text \<open>
  The theorem at a response holding \<open>X-Empty\<close> with an empty value and \<open>Content-Type\<close>,
  under the two orders of its header map, and at two pairs of strings: one differing in
  the case of letters only, one differing in \<open>[\<close> and \<open>{\<close>, which lie 32 apart and are no
  letters.
\<close>

theorem HasHeader_iff_GetHeader_nonempty_witness:
  "enumerates [(''X-Empty'', []), (''Content-Type'', ''text/html'')] (Response.Headers htmlResponse) \<and>
   enumerates [(''Content-Type'', ''text/html''), (''X-Empty'', [])] (Response.Headers htmlResponse) \<and>
   \<not> HasHeader [(''X-Empty'', []), (''Content-Type'', ''text/html'')] htmlResponse ''X-Empty'' \<and>
   HasHeader [(''X-Empty'', []), (''Content-Type'', ''text/html'')] htmlResponse ''content-type'' \<and>
   GetHeader [(''Content-Type'', ''text/html''), (''X-Empty'', [])] htmlResponse ''content-type''
     = ''text/html'' \<and>
   equalsFold ''Content-Type'' ''cONTENT-tYPE'' \<and>
   \<not> equalsFold ''[x'' ''{x''"
proof -
  define o1 where "o1 = [(''X-Empty'', []), (''Content-Type'', ''text/html'')]"
  define o2 where "o2 = [(''Content-Type'', ''text/html''), (''X-Empty'', [])]"
  have hs: "Response.Headers htmlResponse = o1" by (simp add: htmlResponse_def o1_def)
  have e1: "enumerates o1 (Response.Headers htmlResponse)"
    by (simp add: enumerates_def hs) (simp add: o1_def)
  have e2: "enumerates o2 (Response.Headers htmlResponse)"
    by (auto simp: enumerates_def hs o1_def o2_def)
  have m: "map_of (Response.Headers htmlResponse) ''X-Empty'' = Some []"
    by (simp add: hs o1_def)
  have a: "\<not> HasHeader o1 htmlResponse ''X-Empty''"
    using HasHeader_iff_GetHeader_nonempty [OF e1 e2, of "''X-Empty''" "[]" "[]"] m by blast
  have nf: "\<not> list_all2 sameLetter ''X-Empty'' ''content-type''"
    by (simp add: list_all2_iff)
  have uniq: "\<forall>k v k' v'. (k, v) \<in> set (Response.Headers htmlResponse) \<and>
      (k', v') \<in> set (Response.Headers htmlResponse) \<and>
      list_all2 sameLetter k ''content-type'' \<and> list_all2 sameLetter k' ''content-type''
      \<longrightarrow> k = k'"
    using nf by (auto simp: hs o1_def)
  have g: "GetHeader o2 htmlResponse ''content-type'' = ''text/html''"
    unfolding o2_def by code_simp
  have "HasHeader o1 htmlResponse ''content-type'' \<longleftrightarrow>
      GetHeader o2 htmlResponse ''content-type'' \<noteq> []"
    using HasHeader_iff_GetHeader_nonempty
        [OF e1 e2, of "''content-type''" "[]" "[]", THEN conjunct2, THEN conjunct1] uniq
    by blast
  then have b: "HasHeader o1 htmlResponse ''content-type''"
    by (simp add: g)
  have s1: "list_all2 sameLetter ''Content-Type'' ''cONTENT-tYPE''" by code_simp
  have s2: "\<not> list_all2 sameLetter ''[x'' ''{x''" by code_simp
  have c: "equalsFold ''Content-Type'' ''cONTENT-tYPE''"
    using HasHeader_iff_GetHeader_nonempty
      [OF e1 e2, of "[]" "''Content-Type''" "''cONTENT-tYPE''"] s1 by blast
  have d: "\<not> equalsFold ''[x'' ''{x''"
    using HasHeader_iff_GetHeader_nonempty [OF e1 e2, of "[]" "''[x''" "''{x''"] s2 by blast
  from e1 e2 a b g c d show ?thesis unfolding o1_def o2_def by blast
qed

text \<open>
  C10 for every response fails: the map holds \<open>X-A\<close> with the value \<open>""\<close> and \<open>x-a\<close> with
  the value \<open>v\<close>, both fold to \<open>X-a\<close>, and a \<open>GetHeader\<close> call whose loop yields \<open>X-A\<close>
  first returns \<open>""\<close> while a \<open>HasHeader\<close> call whose loop yields \<open>x-a\<close> first holds.
\<close>

theorem HasHeader_across_orders_counterexample:
  "enumerates [(''X-A'', []), (''x-a'', ''v'')] (Response.Headers twoCaseResponse) \<and>
   enumerates [(''x-a'', ''v''), (''X-A'', [])] (Response.Headers twoCaseResponse) \<and>
   GetHeader [(''X-A'', []), (''x-a'', ''v'')] twoCaseResponse ''X-a'' = [] \<and>
   HasHeader [(''x-a'', ''v''), (''X-A'', [])] twoCaseResponse ''X-a''"
proof -
  have e1: "enumerates [(''X-A'', []), (''x-a'', ''v'')] (Response.Headers twoCaseResponse)"
    by (auto simp: enumerates_def twoCaseResponse_def twoCaseHeaders_def)
  have e2: "enumerates [(''x-a'', ''v''), (''X-A'', [])] (Response.Headers twoCaseResponse)"
    by (auto simp: enumerates_def twoCaseResponse_def twoCaseHeaders_def)
  have g: "GetHeader [(''X-A'', []), (''x-a'', ''v'')] twoCaseResponse ''X-a'' = []"
    by code_simp
  have h: "HasHeader [(''x-a'', ''v''), (''X-A'', [])] twoCaseResponse ''X-a''"
    by code_simp
  from e1 e2 g h show ?thesis by blast
qed

subsection \<open>The redirect policy under the client's loop\<close>

text \<open>
  With follow-redirects disabled the client returns the response it gets, redirect or
  not, whatever \<open>MaxRedirects\<close> is.
\<close>

lemma shouldRedirect_found302: "shouldRedirect found302"
  by code_simp

lemma not_shouldRedirect_ok200: "\<not> shouldRedirect ok200"
  by code_simp

lemma clientDo_disabled:
  "\<not> FollowRedirects config \<Longrightarrow> send (length reqs) = Inr resp \<Longrightarrow>
     clientDo config send req reqs = Inr resp"
  by (subst clientDo.simps) (simp add: checkRedirect_def)

text \<open>
  With follow-redirects enabled, a server that redirects \<open>k\<close> times and then answers is
  followed to its answer exactly when \<open>k = 0\<close> or \<open>k < MaxRedirects\<close>; otherwise the call
  fails with "stopped after \<open>MaxRedirects\<close> redirects". The policy compares the number of
  requests made, which is one more than the number of redirects followed.
\<close>

lemma clientDo_chain:
  assumes follow: "FollowRedirects config"
    and redirects: "\<And>n. n < k \<Longrightarrow> \<exists>resp. send n = Inr resp \<and> shouldRedirect resp"
    and final: "send k = Inr resp" "\<not> shouldRedirect resp"
  shows "length reqs \<le> k \<Longrightarrow>
     clientDo config send req reqs =
       (if length reqs = k \<or> int k < MaxRedirects config then Inr resp
        else Inl (StoppedAfterRedirects (MaxRedirects config)))"
proof (induction "k - length reqs" arbitrary: reqs)
  case 0
  then have "length reqs = k" by simp
  then show ?case using final by (subst clientDo.simps) simp
next
  case (Suc d)
  then have lt: "length reqs < k" by simp
  from redirects [OF lt] obtain r where r: "send (length reqs) = Inr r" "shouldRedirect r"
    by blast
  show ?case
  proof (cases "int (length reqs) + 1 < MaxRedirects config")
    case True
    have d: "d = k - length (reqs @ [req])" using Suc.hyps(2) by simp
    have le: "length (reqs @ [req]) \<le> k" using lt by simp
    have "clientDo config send req reqs = clientDo config send req (reqs @ [req])"
      using r True follow by (subst clientDo.simps) (simp add: checkRedirect_def)
    also have "\<dots> = (if length (reqs @ [req]) = k \<or> int k < MaxRedirects config then Inr resp
        else Inl (StoppedAfterRedirects (MaxRedirects config)))"
      by (rule Suc.hyps(1) [OF d le])
    also have "\<dots> = (if length reqs = k \<or> int k < MaxRedirects config then Inr resp
        else Inl (StoppedAfterRedirects (MaxRedirects config)))"
      using lt True by auto
    finally show ?thesis .
  next
    case False
    then have "clientDo config send req reqs = Inl (StoppedAfterRedirects (MaxRedirects config))"
      using r follow by (subst clientDo.simps) (simp add: checkRedirect_def)
    then show ?thesis using lt False by auto
  qed
qed

lemma Do_redirectsThenOK:
  "FollowRedirects config \<Longrightarrow>
     Do config (redirectsThenOK k) req =
       (if k = 0 \<or> int k < MaxRedirects config then Inr ok200
        else Inl (StoppedAfterRedirects (MaxRedirects config)))"
proof -
  assume f: "FollowRedirects config"
  have "clientDo config (redirectsThenOK k) req [] =
       (if length ([] :: http_Request list) = k \<or> int k < MaxRedirects config then Inr ok200
        else Inl (StoppedAfterRedirects (MaxRedirects config)))"
    by (rule clientDo_chain [OF f])
       (auto simp: redirectsThenOK_def shouldRedirect_found302 not_shouldRedirect_ok200)
  then show ?thesis by (auto simp: Do_def)
qed

text \<open>
  C8 at concrete inputs. With follow-redirects enabled and \<open>MaxRedirects = 2\<close>: one
  redirect is followed to the final 200; a chain of two redirects, which does not
  exceed the maximum, is not followed to its end but fails with "stopped after 2
  redirects"; with \<open>MaxRedirects = 1\<close> a single redirect already fails; a server that
  redirects indefinitely fails with "stopped after 2 redirects". With follow-redirects
  disabled the first 302 is returned as it is.
\<close>

theorem Do_max_two_stops_chain_of_two:
  "Do (exampleConfig 2 True) (redirectsThenOK 1) exampleWire = Inr ok200 \<and>
   Do (exampleConfig 2 True) (redirectsThenOK 2) exampleWire = Inl (StoppedAfterRedirects 2) \<and>
   Do (exampleConfig 1 True) (redirectsThenOK 1) exampleWire = Inl (StoppedAfterRedirects 1) \<and>
   Do (exampleConfig 2 True) alwaysRedirects exampleWire = Inl (StoppedAfterRedirects 2) \<and>
   Do (exampleConfig 2 False) alwaysRedirects exampleWire = Inr found302"
proof -
  have f: "FollowRedirects (exampleConfig 2 True)" "FollowRedirects (exampleConfig 1 True)"
    by (simp_all add: exampleConfig_def)
  have a: "Do (exampleConfig 2 True) (redirectsThenOK 1) exampleWire = Inr ok200"
    by (simp add: Do_redirectsThenOK f exampleConfig_def)
  have b: "Do (exampleConfig 2 True) (redirectsThenOK 2) exampleWire = Inl (StoppedAfterRedirects 2)"
    by (simp add: Do_redirectsThenOK f exampleConfig_def)
  have c: "Do (exampleConfig 1 True) (redirectsThenOK 1) exampleWire = Inl (StoppedAfterRedirects 1)"
    by (simp add: Do_redirectsThenOK f exampleConfig_def)
  have r: "shouldRedirect found302" by (rule shouldRedirect_found302)
  have d1: "clientDo (exampleConfig 2 True) alwaysRedirects exampleWire [exampleWire]
      = Inl (StoppedAfterRedirects 2)"
    using r by (subst clientDo.simps) (simp add: alwaysRedirects_def checkRedirect_def exampleConfig_def)
  have d: "Do (exampleConfig 2 True) alwaysRedirects exampleWire = Inl (StoppedAfterRedirects 2)"
    unfolding Do_def using r d1
    by (subst clientDo.simps) (simp add: alwaysRedirects_def checkRedirect_def exampleConfig_def)
  have e: "Do (exampleConfig 2 False) alwaysRedirects exampleWire = Inr found302"
    unfolding Do_def
    by (rule clientDo_disabled) (simp_all add: exampleConfig_def alwaysRedirects_def)
  from a b c d e show ?thesis by blast
qed

end
